theory Spec2Isabelle
  imports Complex_Main "HOL-Library.Log_Nat"
begin

section \<open>Order hierarchy: data model\<close>

text \<open>
  The generators keep every order as a Python dict and append copies of it to a
  snapshot list. The embedding keeps the fields the accounting depends on:
  \<open>order_level\<close> (0 client, 1 algo parent, 2 slice, 3 route), the three quantity
  fields, \<open>average_price\<close> and \<open>state\<close>. Identifiers, ticker, side, venue names
  on orders and timestamps are never read back by the accounting and are left out.
  Quantities are Python's unbounded integers (\<open>int\<close>). Prices and rates are
  Python floats; a float is modelled by the rational number it denotes (\<open>rat\<close>).
  Where a statement below depends on the value a float computation stores
  (\<open>calculate_vwap_schedule\<close>, \<open>calculate_urgency\<close> and the urgency tests of
  the two generators, \<open>trading_system_simulator_v2.py\<close>,
  \<open>generate_tick_database.py\<close>), every operation rounds its exact result to the
  nearest double as the interpreter does (section \<open>Python floats\<close>). Elsewhere
  (the prices of \<open>generate_production_vwap_fixed.py\<close>,
  \<open>generate_final_vwap.py\<close>, \<open>generate_realistic_flow.py\<close> and
  \<open>update_parent_orders\<close>, the thresholds of the venue outcomes and of
  \<open>execute_order\<close>) a float is carried as the exact rational: what is proved
  about these parts concerns quantities, states and which value is copied where,
  and does not depend on the rounding of a price. State and event tags are the
  strings of the source.
\<close>

datatype py_error = ZeroDivisionError | IndexError | ValueError | OverflowError

record order =
  order_level :: int
  quantity :: int
  filled_quantity :: int
  remaining_quantity :: int
  average_price :: rat
  state :: string

record snapshot =
  snap_order :: order
  event_type :: string

text \<open>The accounting invariant of the data model.\<close>

definition conserved :: "order \<Rightarrow> bool" where
  "conserved ord \<longleftrightarrow> filled_quantity ord + remaining_quantity ord = quantity ord"

text \<open>
  A freshly created order of every generator:
  \<open>filled_quantity = 0\<close>, \<open>remaining_quantity = quantity\<close>, \<open>average_price = 0.0\<close>.
\<close>

definition new_order :: "int \<Rightarrow> int \<Rightarrow> string \<Rightarrow> order" where
  "new_order lvl qty st =
     \<lparr>order_level = lvl, quantity = qty, filled_quantity = 0,
      remaining_quantity = qty, average_price = 0, state = st\<rparr>"

section \<open>Python floats\<close>

text \<open>
  A Python float is an IEEE 754 binary64 number: a multiple \<open>m * 2^(e - 52)\<close> of a
  power of two with \<open>2^52 \<le> |m| < 2^53\<close>, or zero. \<open>binary_exponent x\<close> is the
  \<open>e\<close> with \<open>2^e \<le> x < 2^(e+1)\<close> for positive \<open>x\<close>, and \<open>py_float x\<close> is the
  double nearest to the rational \<open>x\<close>, a tie going to the even significand. This
  is the result of \<open>float(x)\<close> on an integer and of every arithmetic operation on
  floats, each of which rounds its exact result once. The exponent is not bounded
  here: the model gives the value of the interpreter as long as no magnitude
  reaches \<open>2^1024\<close> (there the interpreter raises \<open>OverflowError\<close> or produces
  \<open>inf\<close>) and no non-zero magnitude falls below \<open>2^-1022\<close> (there a double has
  fewer than 53 bits). Where an integer argument of unbounded size is converted,
  the \<open>OverflowError\<close> is a branch of the model: \<open>float_overflow x\<close> says that
  the magnitude of \<open>x\<close> is \<open>2^1024\<close> or more.
\<close>

definition round_half_even :: "rat \<Rightarrow> int" where
  "round_half_even y =
     (let f = \<lfloor>y\<rfloor>; d = y - of_int f
      in if d < 1/2 then f
         else if 1/2 < d then f + 1
         else if even f then f else f + 1)"

definition binary_exponent :: "rat \<Rightarrow> int" where
  "binary_exponent x =
     (let (a, b) = quotient_of x; e = bitlen a - bitlen b
      in if 2 powi e \<le> x then e else e - 1)"

definition py_float :: "rat \<Rightarrow> rat" where
  "py_float x =
     (if x = 0 then 0
      else let ulp = 2 powi (binary_exponent \<bar>x\<bar> - 52)
           in of_int (round_half_even (x / ulp)) * ulp)"

definition float_overflow :: "rat \<Rightarrow> bool" where
  "float_overflow x \<longleftrightarrow> x \<noteq> 0 \<and> 1024 \<le> binary_exponent \<bar>x\<bar>"

text \<open>
  The operations the generators use. \<open>n * x\<close> and \<open>x / n\<close> with an integer \<open>n\<close>
  and a float \<open>x\<close> convert \<open>n\<close> to a float first; \<open>a / b\<close> on two integers is the
  correctly rounded quotient. \<open>sum\<close> over floats adds from the left, starting from
  the integer \<open>0\<close>, one rounded addition per item, which is also what a running
  total updated with \<open>+=\<close> does (CPython up to 3.11; from 3.12 on \<open>sum\<close>
  compensates the rounding errors of the additions).
\<close>

definition float_mul_int :: "int \<Rightarrow> rat \<Rightarrow> rat" where
  "float_mul_int n x = py_float (py_float (of_int n) * x)"

definition float_div_int :: "rat \<Rightarrow> int \<Rightarrow> rat" where
  "float_div_int x n = py_float (x / py_float (of_int n))"

definition int_true_div :: "int \<Rightarrow> int \<Rightarrow> rat" where
  "int_true_div a b = py_float (of_int a / of_int b)"

definition float_add :: "rat \<Rightarrow> rat \<Rightarrow> rat" where
  "float_add x y = py_float (x + y)"

definition py_sum :: "rat list \<Rightarrow> rat" where
  "py_sum xs = foldl float_add 0 xs"

text \<open>
  \<open>round(x, 4)\<close> on a float: the decimal with four places nearest to the exact
  value of \<open>x\<close>, a tie going to the even last digit (\<open>round4\<close>), and then the
  double nearest to that decimal (\<open>py_round4\<close>).
\<close>

definition round4 :: "rat \<Rightarrow> rat" where
  "round4 x = of_int (round_half_even (x * 10000)) / 10000"

definition py_round4 :: "rat \<Rightarrow> rat" where
  "py_round4 x = py_float (round4 x)"

section \<open>trading_system_simulator_v2.py\<close>

subsection \<open>Venue.receive_order\<close>

text \<open>
  A fill as returned by \<open>Venue.receive_order\<close>: the dict with keys \<open>quantity\<close>
  and \<open>price\<close>, here \<open>fquantity\<close> and \<open>fprice\<close> (venue name, market price and timestamp are not used by the
  accounting). The fill price is drawn from the market simulator; here it is an
  argument.
\<close>

record fill =
  fquantity :: int
  fprice :: rat

definition receive_order :: "order \<Rightarrow> rat \<Rightarrow> order \<times> fill" where
  "receive_order ord price =
     (ord\<lparr>filled_quantity := quantity ord,
          remaining_quantity := 0,
          average_price := py_round4 price,
          state := ''FILLED''\<rparr>,
      \<lparr>fquantity = quantity ord, fprice = price\<rparr>)"

subsection \<open>SmartOrderRouter.route_order\<close>

text \<open>
  \<open>selected_venues\<close> is the result of \<open>random.sample\<close>; the fill price of the
  venue at position \<open>idx\<close> is \<open>price idx\<close>. The body of the \<open>for idx, venue_name\<close>
  loop creates the route order, sends it to the venue (which mutates the same dict),
  and overwrites the router's copy with the fill. An empty venue list makes
  \<open>quantity // len(selected_venues)\<close> raise. The snapshots the router and the
  venue capture on the way are copies of the orders returned here. The running
  totals \<open>total_filled\<close> and \<open>total_value\<close> of the loop are the sums over the
  fills collected, the second one added up in float arithmetic from the left.
\<close>

definition route_to_venue :: "int \<Rightarrow> int \<Rightarrow> int \<Rightarrow> (nat \<Rightarrow> rat) \<Rightarrow> nat \<Rightarrow> order \<times> fill" where
  "route_to_venue qty_per_venue remainder k price idx =
     (let venue_qty = qty_per_venue + (if int idx = k - 1 then remainder else 0);
          sor_order = new_order 3 venue_qty ''PENDING'';
          (sor_order, vfill) = receive_order sor_order (price idx);
          sor_order = sor_order\<lparr>filled_quantity := fquantity vfill,
                                remaining_quantity := 0,
                                average_price := fprice vfill,
                                state := ''FILLED''\<rparr>
      in (sor_order, vfill))"

definition route_order_v2 ::
  "order \<Rightarrow> string list \<Rightarrow> (nat \<Rightarrow> rat) \<Rightarrow> py_error + (order list \<times> fill list \<times> order)" where
  "route_order_v2 algo_child selected_venues price =
     (if length selected_venues = 0 then Inl ZeroDivisionError
      else
        let algo_child = algo_child\<lparr>state := ''WORKING''\<rparr>;
            k = int (length selected_venues);
            qty_per_venue = quantity algo_child div k;
            remainder = quantity algo_child mod k;
            routed = map (\<lambda>(idx, venue_name). route_to_venue qty_per_venue remainder k price idx)
                         (enumerate 0 selected_venues);
            sor_orders = map fst routed;
            fills = map snd routed;
            total_filled = sum_list (map fquantity fills);
            total_value = py_sum (map (\<lambda>f. float_mul_int (fquantity f) (fprice f)) fills);
            algo_child = algo_child\<lparr>
              filled_quantity := total_filled,
              remaining_quantity := quantity algo_child - total_filled,
              average_price := (if total_filled > 0
                                then py_round4 (float_div_int total_value total_filled) else 0),
              state := (if total_filled \<ge> quantity algo_child then ''FILLED'' else ''PARTIALLY_FILLED'')\<rparr>
        in Inr (sor_orders, fills, algo_child))"

subsection \<open>AlgoEngine._process_fills\<close>

text \<open>
  An entry of \<open>AlgoEngine.parent_orders\<close>: the algo parent, the client order it was
  created for and the list of all fills received so far (\<open>child_count\<close> is not read
  by the cascade). The lookup \<open>parent_id in self.parent_orders\<close> is the option
  argument: \<open>None\<close> when the id is not a key. The tick database is the snapshot list.
\<close>

record parent_data =
  pd_order :: order
  pd_client_order :: order
  pd_fills :: "fill list"
  pd_filled_children :: int

definition fills_quantity :: "fill list \<Rightarrow> int" where
  "fills_quantity fills = sum_list (map fquantity fills)"

text \<open>\<open>sum(f['quantity'] * f['price'] for f in fills)\<close>\<close>

definition fills_float_value :: "fill list \<Rightarrow> rat" where
  "fills_float_value fills = py_sum (map (\<lambda>f. float_mul_int (fquantity f) (fprice f)) fills)"

definition process_fills ::
  "order \<Rightarrow> fill list \<Rightarrow> parent_data option \<Rightarrow> snapshot list
   \<Rightarrow> order \<times> parent_data option \<times> snapshot list" where
  "process_fills child fills parent_entry tick_db =
     (if fills = [] then (child, parent_entry, tick_db)
      else
        let total_qty = fills_quantity fills;
            total_value = fills_float_value fills;
            avg_price = (if total_qty > 0 then float_div_int total_value total_qty else 0);
            child = child\<lparr>filled_quantity := total_qty,
                          remaining_quantity := quantity child - total_qty,
                          average_price := py_round4 avg_price,
                          state := (if total_qty \<ge> quantity child
                                    then ''FILLED'' else ''PARTIALLY_FILLED'')\<rparr>;
            tick_db = tick_db @ [\<lparr>snap_order = child, event_type = ''ALGO_SLICE_FILLED''\<rparr>]
        in case parent_entry of
             None \<Rightarrow> (child, None, tick_db)
           | Some parent_data \<Rightarrow>
               let parent_data =
                     (if state child = ''FILLED''
                      then parent_data\<lparr>pd_filled_children := pd_filled_children parent_data + 1\<rparr>
                      else parent_data);
                   parent_data = parent_data\<lparr>pd_fills := pd_fills parent_data @ fills\<rparr>;
                   parent = pd_order parent_data;
                   parent = parent\<lparr>filled_quantity := filled_quantity parent + total_qty\<rparr>;
                   parent = parent\<lparr>remaining_quantity := quantity parent - filled_quantity parent\<rparr>;
                   all_fills = pd_fills parent_data;
                   total_parent_value = fills_float_value all_fills;
                   parent = parent\<lparr>average_price :=
                              (if filled_quantity parent > 0
                               then py_round4 (float_div_int total_parent_value (filled_quantity parent))
                               else 0)\<rparr>;
                   parent = parent\<lparr>state := (if filled_quantity parent \<ge> quantity parent
                                              then ''FILLED'' else ''WORKING'')\<rparr>;
                   tick_db = tick_db @ [\<lparr>snap_order = parent, event_type = ''ALGO_PARENT_UPDATE''\<rparr>];
                   client = (pd_client_order parent_data)\<lparr>
                              filled_quantity := filled_quantity parent,
                              remaining_quantity := remaining_quantity parent,
                              average_price := average_price parent\<rparr>;
                   client = client\<lparr>state := (if state parent = ''FILLED''
                                              then ''FILLED'' else ''WORKING'')\<rparr>;
                   tick_db = tick_db @ [\<lparr>snap_order = client, event_type = ''CLIENT_UPDATE''\<rparr>]
               in (child, Some (parent_data\<lparr>pd_order := parent, pd_client_order := client\<rparr>), tick_db))"

text \<open>
  \<open>AlgoEngine.receive_order\<close> creates the parent entry for a client order, and
  \<open>generate_child_slice\<close> routes one slice and cascades its fills. The slice sizes,
  the sampled venues and the fill prices of each slice are inputs.
\<close>

definition receive_client_order :: "order \<Rightarrow> parent_data" where
  "receive_client_order client =
     \<lparr>pd_order = new_order 1 (quantity client) ''WORKING'',
      pd_client_order = client\<lparr>state := ''ACCEPTED''\<rparr>,
      pd_fills = [], pd_filled_children = 0\<rparr>"

definition generate_child_slice ::
  "parent_data \<Rightarrow> int \<Rightarrow> string list \<Rightarrow> (nat \<Rightarrow> rat) \<Rightarrow> py_error + parent_data" where
  "generate_child_slice parent_data slice_qty selected_venues price =
     (let child = new_order 2 slice_qty ''PENDING'';
          child = child\<lparr>state := ''ACCEPTED''\<rparr>
      in case route_order_v2 child selected_venues price of
           Inl e \<Rightarrow> Inl e
         | Inr (sor_orders, fills, child) \<Rightarrow>
             (case process_fills child fills (Some parent_data) [] of
                (child, Some parent_data, tick_db) \<Rightarrow> Inr parent_data
              | (child, None, tick_db) \<Rightarrow> Inr parent_data))"

text \<open>
  \<open>run_vwap_simulation\<close> sends the slices one after the other to the same parent;
  each slice comes with its size, its sampled venues and its fill prices.
\<close>

fun v2_run ::
  "parent_data \<Rightarrow> (int \<times> string list \<times> (nat \<Rightarrow> rat)) list \<Rightarrow> py_error + parent_data" where
  "v2_run parent_data [] = Inr parent_data"
| "v2_run parent_data ((slice_size, selected_venues, price) # rest) =
     (case generate_child_slice parent_data slice_size selected_venues price of
        Inl e \<Rightarrow> Inl e
      | Inr parent_data' \<Rightarrow> v2_run parent_data' rest)"

text \<open>
  The quantity-weighted mean of a fill log as a number, \<open>0\<close> for an empty total:
  \<open>\<Sum> qty * price / \<Sum> qty\<close> without any rounding.
\<close>

definition fills_value :: "fill list \<Rightarrow> rat" where
  "fills_value fills = sum_list (map (\<lambda>f. of_int (fquantity f) * fprice f) fills)"

definition vwap :: "fill list \<Rightarrow> rat" where
  "vwap fills = (if fills_quantity fills > 0
                 then fills_value fills / of_int (fills_quantity fills) else 0)"

section \<open>generate_production_vwap.py\<close>

subsection \<open>Python primitives\<close>

text \<open>\<open>xs[:n]\<close>: a negative bound counts from the end.\<close>

definition py_slice_to :: "'a list \<Rightarrow> int \<Rightarrow> 'a list" where
  "py_slice_to xs n = (if n < 0 then take (nat (int (length xs) + n)) xs else take (nat n) xs)"

text \<open>\<open>int(x)\<close> on a number: truncation towards zero.\<close>

definition py_int :: "rat \<Rightarrow> int" where
  "py_int x = (if 0 \<le> x then \<lfloor>x\<rfloor> else \<lceil>x\<rceil>)"

subsection \<open>calculate_vwap_schedule\<close>

text \<open>
  The participation fractions are the doubles the decimal literals of the source
  denote, and \<open>total_quantity * pct\<close> is the float product of the converted
  integer and the fraction. The conversion raises \<open>OverflowError\<close> when the
  integer is too large for a float, at the first iteration of the loop; the products
  are smaller than the converted integer and cannot overflow.
  \<open>schedule[-1] = ...\<close> raises \<open>IndexError\<close> on the empty list, which is what
  \<open>hours = 0\<close> (or \<open>hours \<le> -8\<close>) produces.
\<close>

definition participation :: "rat list" where
  "participation = map py_float [15/100, 10/100, 8/100, 7/100, 8/100, 10/100, 12/100, 30/100]"

definition calculate_vwap_schedule :: "int \<Rightarrow> int \<Rightarrow> py_error + int list" where
  "calculate_vwap_schedule total_quantity hours =
     (let fractions = py_slice_to participation hours
      in if fractions \<noteq> [] \<and> float_overflow (py_float (of_int total_quantity))
         then Inl OverflowError
         else
           let schedule = map (\<lambda>pct. py_int (float_mul_int total_quantity pct)) fractions
           in if schedule = [] then Inl IndexError
              else Inr (schedule[length schedule - 1 :=
                          total_quantity - sum_list (butlast schedule)]))"

subsection \<open>ProductionVWAPSimulator.calculate_urgency\<close>

datatype Urgency = PASSIVE | NORMAL | URGENT | CRITICAL

text \<open>\<open>expected = sum(self.schedule[:hour+1])\<close>\<close>

definition expected_cumulative :: "int list \<Rightarrow> int \<Rightarrow> int" where
  "expected_cumulative schedule hour = sum_list (py_slice_to schedule (hour + 1))"

text \<open>
  \<open>(filled / expected) * 100\<close>: the quotient of the two integers rounded to a
  float, then the float product with \<open>100\<close>. The division raises
  \<open>OverflowError\<close> when the quotient is too large for a float. A product beyond
  the float range is \<open>inf\<close> in the interpreter and a large number here; both are
  above every threshold.
\<close>

definition calculate_urgency :: "int list \<Rightarrow> int \<Rightarrow> int \<Rightarrow> py_error + Urgency \<times> int" where
  "calculate_urgency schedule hour filled =
     (let expected = expected_cumulative schedule hour
      in if expected > 0 \<and> float_overflow (int_true_div filled expected)
         then Inl OverflowError
         else
           let participation_rate =
                 (if expected > 0 then py_float (int_true_div filled expected * 100)
                  else (100 :: rat));
               urgency =
                 (if participation_rate \<ge> 95 then PASSIVE
                  else if participation_rate \<ge> 85 then NORMAL
                  else if participation_rate \<ge> 70 then URGENT
                  else CRITICAL);
               shortfall = expected - filled
           in Inr (urgency, shortfall))"

subsection \<open>ProductionVWAPSimulator.update_parent_orders\<close>

text \<open>
  The simulator's running totals \<open>self.total_filled\<close>, \<open>self.total_value\<close> and
  \<open>self.quantity\<close> are arguments; the two dicts are returned updated together with
  the two snapshots appended. The \<open>participation_target\<close> tag is left out.
\<close>

definition update_parent_orders ::
  "int \<Rightarrow> int \<Rightarrow> rat \<Rightarrow> order \<Rightarrow> order \<Rightarrow> snapshot list \<Rightarrow> order \<times> order \<times> snapshot list" where
  "update_parent_orders qty total_fill total_val algo client snaps =
     (let algo = algo\<lparr>filled_quantity := total_fill,
                       remaining_quantity := qty - total_fill,
                       average_price := (if total_fill > 0 then total_val / of_int total_fill else 0),
                       state := (if total_fill \<ge> qty then ''FILLED'' else ''WORKING'')\<rparr>;
          snaps = snaps @ [\<lparr>snap_order = algo, event_type = ''ALGO_UPDATE''\<rparr>];
          client = client\<lparr>filled_quantity := total_fill,
                           remaining_quantity := qty - total_fill,
                           average_price := average_price algo,
                           state := state algo\<rparr>;
          snaps = snaps @ [\<lparr>snap_order = client, event_type = ''CLIENT_UPDATE''\<rparr>]
      in (algo, client, snaps))"

section \<open>generate_production_vwap_fixed.py\<close>

subsection \<open>Generator state and snapshots\<close>

text \<open>
  The fields of \<open>ProductionVWAPGenerator\<close> that the accounting reads or writes.
  \<open>record_id\<close>, \<open>market_price\<close> and \<open>stats\<close> only label or count and are left
  out, as are the \<open>urgency\<close> and \<open>participation_pct\<close> annotations written on the
  algo parent.
\<close>

record gen_state =
  order_size :: int
  avg_slice_size :: int
  detail_level :: string
  snapshots :: "snapshot list"
  total_filled :: int
  total_value :: rat
  client_order :: order
  algo_parent :: order

definition add_snapshot :: "gen_state \<Rightarrow> order \<Rightarrow> string \<Rightarrow> gen_state" where
  "add_snapshot self ord ev =
     self\<lparr>snapshots := snapshots self @ [\<lparr>snap_order = ord, event_type = ev\<rparr>]\<rparr>"

subsection \<open>propagate_fill_up_chain\<close>

text \<open>
  The slice dict is passed by reference and mutated; the model returns it next to
  the generator state. The division \<open>slice_value / slice_filled\<close> is only reached
  with \<open>slice_filled \<noteq> 0\<close>, and \<open>total_value / total_filled\<close> only with
  \<open>total_filled > 0\<close>.
\<close>

definition propagate_fill_up_chain ::
  "gen_state \<Rightarrow> int \<Rightarrow> rat \<Rightarrow> order \<Rightarrow> Urgency \<Rightarrow> gen_state \<times> order" where
  "propagate_fill_up_chain self slice_filled slice_value slice_order urgency =
     (if slice_filled = 0 then (self, slice_order)
      else
        let self = self\<lparr>total_filled := total_filled self + slice_filled,
                        total_value := total_value self + slice_value\<rparr>;
            slice_order = slice_order\<lparr>filled_quantity := filled_quantity slice_order + slice_filled\<rparr>;
            slice_order = slice_order\<lparr>remaining_quantity :=
                                        quantity slice_order - filled_quantity slice_order\<rparr>;
            slice_order = (if filled_quantity slice_order > 0
                           then slice_order\<lparr>average_price := slice_value / of_int slice_filled\<rparr>
                           else slice_order);
            slice_order = slice_order\<lparr>state :=
                            (if filled_quantity slice_order \<ge> quantity slice_order
                             then ''FILLED'' else ''PARTIAL'')\<rparr>;
            self = add_snapshot self slice_order ''SLICE_UPDATE'';
            algo = (algo_parent self)\<lparr>filled_quantity := total_filled self,
                                       remaining_quantity := order_size self - total_filled self\<rparr>;
            algo = (if total_filled self > 0
                    then algo\<lparr>average_price := total_value self / of_int (total_filled self)\<rparr>
                    else algo);
            algo = algo\<lparr>state := (if total_filled self \<ge> order_size self
                                   then ''FILLED'' else ''WORKING'')\<rparr>;
            self = self\<lparr>algo_parent := algo\<rparr>;
            self = add_snapshot self (algo_parent self) ''ALGO_UPDATE'';
            client = (client_order self)\<lparr>filled_quantity := total_filled self,
                                         remaining_quantity := order_size self - total_filled self,
                                         average_price := average_price (algo_parent self),
                                         state := state (algo_parent self)\<rparr>;
            self = self\<lparr>client_order := client\<rparr>;
            self = add_snapshot self (client_order self) ''CLIENT_UPDATE''
        in (self, slice_order))"

subsection \<open>The venue outcome inside generate\<close>

datatype VenueResult = FILLED | PARTIAL | FADE | REJECT | NO_CONN

fun VenueResult_value :: "VenueResult \<Rightarrow> string" where
  "VenueResult_value FILLED = ''FILLED''"
| "VenueResult_value PARTIAL = ''PARTIAL''"
| "VenueResult_value FADE = ''FADE''"
| "VenueResult_value REJECT = ''REJECT''"
| "VenueResult_value NO_CONN = ''NO_CONNECTION''"

text \<open>
  Lines 261--291: the \<open>if outcome_rand < 0.05 ... elif ... else\<close> chain. The two
  uniform draws and the price expression of the branch taken are arguments. The
  result is \<open>(result, filled_qty, fill_price)\<close>.
\<close>

definition venue_outcome :: "rat \<Rightarrow> rat \<Rightarrow> int \<Rightarrow> rat \<Rightarrow> VenueResult \<times> int \<times> rat" where
  "venue_outcome outcome_rand reject_rand route_size price =
     (if outcome_rand < 5/100 then (FADE, 0, 0)
      else if outcome_rand < 15/100 then (PARTIAL, route_size div 2, price)
      else if outcome_rand < 17/100
           then (if reject_rand < 1/2 then REJECT else NO_CONN, 0, 0)
      else (FILLED, route_size, price))"

text \<open>Lines 295--310: the route order built from the outcome (detail level \<open>full\<close>).\<close>

definition sor_order_of :: "int \<Rightarrow> VenueResult \<times> int \<times> rat \<Rightarrow> order" where
  "sor_order_of route_size outcome =
     (case outcome of (result, filled_qty, fill_price) \<Rightarrow>
        \<lparr>order_level = 3, quantity = route_size, filled_quantity = filled_qty,
         remaining_quantity = route_size - filled_qty,
         average_price = (if filled_qty > 0 then fill_price else 0),
         state = VenueResult_value result\<rparr>)"

subsection \<open>generate: the three nested loops\<close>

text \<open>
  Every call of \<open>random\<close> is an input: the slice size drawn by \<open>randint\<close> for slice
  \<open>s\<close> of hour \<open>h\<close>, and for route \<open>r\<close> of that slice the outcome draw, the
  reject/no-connection draw and the fill price. The draws are not restricted to the
  ranges \<open>random\<close> would use. \<open>randint\<close> raises on an empty range, which needs a
  negative \<open>avg_slice_size\<close>; a slice is only drawn when \<open>order_size\<close> and
  \<open>order_size // avg_slice_size\<close> are positive, so that call is never reached then.
\<close>

record draws =
  slice_draw :: "nat \<Rightarrow> nat \<Rightarrow> int"
  outcome_rand :: "nat \<Rightarrow> nat \<Rightarrow> nat \<Rightarrow> rat"
  reject_rand :: "nat \<Rightarrow> nat \<Rightarrow> nat \<Rightarrow> rat"
  price_draw :: "nat \<Rightarrow> nat \<Rightarrow> nat \<Rightarrow> rat"

text \<open>
  Lines 179--190: the urgency of the hour, with \<open>hours = 7\<close>. The rate is
  \<open>total_filled / expected * 100\<close> in float arithmetic as in \<open>calculate_urgency\<close>;
  the generator never fills more than \<open>order_size\<close>, so the quotient stays below 14
  and the division cannot overflow.
\<close>

definition generate_urgency :: "int \<Rightarrow> int \<Rightarrow> int \<Rightarrow> Urgency" where
  "generate_urgency order_sz hour filled =
     (let expected = (order_sz div 7) * (hour + 1);
          participation_rate =
            (if expected > 0 then py_float (int_true_div filled expected * 100) else (0 :: rat))
      in if participation_rate < 70 then CRITICAL
         else if participation_rate < 85 then URGENT
         else if participation_rate < 95 then NORMAL
         else PASSIVE)"

text \<open>
  The loop state of the route loop: the generator, the slice dict,
  \<open>slice_filled\<close> and \<open>slice_value\<close>. One iteration after the \<open>break\<close> test;
  \<open>continue\<close> returns the state unchanged.
\<close>

type_synonym route_state = "gen_state \<times> order \<times> int \<times> rat"

text \<open>Lines 293--317: the route order is recorded at detail level \<open>full\<close>.\<close>

definition record_route :: "gen_state \<Rightarrow> int \<Rightarrow> VenueResult \<times> int \<times> rat \<Rightarrow> gen_state" where
  "record_route self route_size outcome =
     (if detail_level self = ''full''
      then add_snapshot self (sor_order_of route_size outcome)
             (''VENUE_'' @ VenueResult_value (fst outcome))
      else self)"

text \<open>Lines 322--334: a positive fill is added to the slice totals and propagated.\<close>

definition apply_fill :: "Urgency \<Rightarrow> int \<Rightarrow> rat \<Rightarrow> route_state \<Rightarrow> route_state" where
  "apply_fill urgency filled_qty fill_price st =
     (case st of (self, slice_order, slice_filled, slice_value) \<Rightarrow>
        if filled_qty > 0
        then
          let slice_filled = slice_filled + filled_qty;
              slice_value = slice_value + of_int filled_qty * fill_price;
              (self, slice_order) =
                (if detail_level self \<noteq> ''none''
                 then propagate_fill_up_chain self filled_qty
                        (of_int filled_qty * fill_price) slice_order urgency
                 else (self, slice_order))
          in (self, slice_order, slice_filled, slice_value)
        else st)"

definition route_step ::
  "draws \<Rightarrow> nat \<Rightarrow> nat \<Rightarrow> Urgency \<Rightarrow> int \<Rightarrow> int \<Rightarrow> nat \<Rightarrow> route_state \<Rightarrow> route_state" where
  "route_step d hour sl urgency slice_size num_routes route_num st =
     (case st of (self, slice_order, slice_filled, slice_value) \<Rightarrow>
        let route_size = min ((slice_size - slice_filled) div (num_routes - int route_num))
                             (slice_size - slice_filled)
        in if route_size \<le> 0 then st
           else
             let outcome = venue_outcome (outcome_rand d hour sl route_num)
                             (reject_rand d hour sl route_num) route_size
                             (price_draw d hour sl route_num);
                 filled_qty = fst (snd outcome);
                 fill_price = snd (snd outcome);
                 self = record_route self route_size outcome
             in apply_fill urgency filled_qty fill_price
                  (self, slice_order, slice_filled, slice_value))"

fun route_loop ::
  "draws \<Rightarrow> nat \<Rightarrow> nat \<Rightarrow> Urgency \<Rightarrow> int \<Rightarrow> int \<Rightarrow> nat list \<Rightarrow> route_state \<Rightarrow> route_state" where
  "route_loop d hour sl urgency slice_size num_routes [] st = st"
| "route_loop d hour sl urgency slice_size num_routes (route_num # rest) st =
     (if fst (snd (snd st)) \<ge> slice_size then st
      else route_loop d hour sl urgency slice_size num_routes rest
             (route_step d hour sl urgency slice_size num_routes route_num st))"

text \<open>One slice of the hour, after the \<open>break\<close> test of the slice loop.\<close>

definition slice_step :: "draws \<Rightarrow> nat \<Rightarrow> Urgency \<Rightarrow> nat \<Rightarrow> gen_state \<Rightarrow> gen_state" where
  "slice_step d hour urgency sl self =
     (let slice_size = min (slice_draw d hour sl) (order_size self - total_filled self);
          slice_order = new_order 2 slice_size ''PENDING'';
          self = (if detail_level self = ''full'' \<or> detail_level self = ''summary''
                  then add_snapshot self slice_order ''NEW'' else self);
          num_routes = (if urgency = CRITICAL \<or> urgency = URGENT then 3 else 2)
      in fst (route_loop d hour sl urgency slice_size (int num_routes) [0..<num_routes]
                (self, slice_order, 0, 0)))"

fun slice_loop :: "draws \<Rightarrow> nat \<Rightarrow> Urgency \<Rightarrow> nat list \<Rightarrow> gen_state \<Rightarrow> gen_state" where
  "slice_loop d hour urgency [] self = self"
| "slice_loop d hour urgency (sl # rest) self =
     (if total_filled self \<ge> order_size self then self
      else slice_loop d hour urgency rest (slice_step d hour urgency sl self))"

definition hour_step :: "draws \<Rightarrow> int \<Rightarrow> nat \<Rightarrow> gen_state \<Rightarrow> gen_state" where
  "hour_step d slices_per_hour hour self =
     (let urgency = generate_urgency (order_size self) (int hour) (total_filled self);
          hour_slices = min slices_per_hour 50
      in slice_loop d hour urgency [0..<nat hour_slices] self)"

fun hour_loop :: "draws \<Rightarrow> int \<Rightarrow> nat list \<Rightarrow> gen_state \<Rightarrow> gen_state" where
  "hour_loop d slices_per_hour [] self = self"
| "hour_loop d slices_per_hour (hour # rest) self =
     (if total_filled self \<ge> order_size self then self
      else hour_loop d slices_per_hour rest (hour_step d slices_per_hour hour self))"

text \<open>
  \<open>generate\<close>. The two \<open>print\<close> calls that divide are the only places that can
  raise: \<open>order_size // avg_slice_size\<close> before anything is recorded, and
  \<open>total_filled / order_size\<close> in the closing summary.
\<close>

definition initial_state :: "int \<Rightarrow> int \<Rightarrow> string \<Rightarrow> gen_state" where
  "initial_state order_sz avg_slice_sz detail =
     \<lparr>order_size = order_sz, avg_slice_size = avg_slice_sz, detail_level = detail,
      snapshots = [], total_filled = 0, total_value = 0,
      client_order = new_order 0 order_sz ''PENDING'',
      algo_parent = new_order 1 order_sz ''WORKING''\<rparr>"

text \<open>Lines 124--164: the client order, its acceptance and the algo parent.\<close>

definition start_orders :: "int \<Rightarrow> int \<Rightarrow> string \<Rightarrow> gen_state" where
  "start_orders order_sz avg_slice_sz detail =
     (let self = initial_state order_sz avg_slice_sz detail;
          self = add_snapshot self (client_order self) ''NEW'';
          self = self\<lparr>client_order := (client_order self)\<lparr>state := ''ACCEPTED''\<rparr>\<rparr>;
          self = add_snapshot self (client_order self) ''ACCEPTED''
      in add_snapshot self (algo_parent self) ''NEW'')"

text \<open>Lines 336--342: the final update.\<close>

definition complete_orders :: "gen_state \<Rightarrow> gen_state" where
  "complete_orders self =
     (if total_filled self \<ge> order_size self
      then
        let self = self\<lparr>client_order := (client_order self)\<lparr>state := ''FILLED''\<rparr>\<rparr>;
            self = self\<lparr>algo_parent := (algo_parent self)\<lparr>state := ''FILLED''\<rparr>\<rparr>;
            self = add_snapshot self (algo_parent self) ''COMPLETED''
        in add_snapshot self (client_order self) ''COMPLETED''
      else self)"

definition generate :: "draws \<Rightarrow> int \<Rightarrow> int \<Rightarrow> string \<Rightarrow> py_error + gen_state" where
  "generate d order_sz avg_slice_sz detail =
     (if avg_slice_sz = 0 then Inl ZeroDivisionError
      else
        let self = start_orders order_sz avg_slice_sz detail;
            hours = 7;
            num_slices = order_size self div avg_slice_size self;
            slices_per_hour = num_slices div hours;
            self = hour_loop d slices_per_hour [0..<nat hours] self;
            self = complete_orders self
        in if order_size self = 0 then Inl ZeroDivisionError else Inr self)"

section \<open>generate_final_vwap.py\<close>

text \<open>
  \<open>generate_final_vwap\<close> keeps its state in local variables. \<open>fv_client\<close> is the
  client dict, overwritten once per hour; \<open>fv_slice_counter\<close> decides how many
  slices the last hour gets.
\<close>

record fv_state =
  fv_snapshots :: "snapshot list"
  fv_total_filled :: int
  fv_total_value :: rat
  fv_slice_counter :: int
  fv_client :: order

text \<open>
  Lines 202--226: the outcome chain with the rates as parameters (defaults
  \<open>fade_rate = 0.05\<close>, \<open>partial_rate = 0.10\<close>). Here the second draw below one half
  gives \<open>NO_CONN\<close>. Lines 229--237 set \<open>fill_price = 0\<close> when nothing filled.
\<close>

definition fv_venue_outcome ::
  "rat \<Rightarrow> rat \<Rightarrow> rat \<Rightarrow> rat \<Rightarrow> int \<Rightarrow> rat \<Rightarrow> VenueResult \<times> int \<times> rat" where
  "fv_venue_outcome fade_rate partial_rate outcome_rnd reject_rnd route_size price =
     (let (result, filled_qty) =
            (if outcome_rnd < fade_rate then (FADE, 0)
             else if outcome_rnd < fade_rate + partial_rate then (PARTIAL, route_size div 2)
             else if outcome_rnd < fade_rate + partial_rate + 2/100
                  then (if reject_rnd < 1/2 then NO_CONN else REJECT, 0)
             else (FILLED, route_size))
      in (result, filled_qty, if filled_qty > 0 then price else 0))"

definition fv_sor_order :: "int \<Rightarrow> VenueResult \<times> int \<times> rat \<Rightarrow> order" where
  "fv_sor_order route_size outcome =
     (case outcome of (result, filled_qty, fill_price) \<Rightarrow>
        \<lparr>order_level = 3, quantity = route_size, filled_quantity = filled_qty,
         remaining_quantity = route_size - filled_qty,
         average_price = fill_price,
         state = VenueResult_value result\<rparr>)"

text \<open>
  Lines 133--140: the urgency of the hour; this generator has no passive level.
  \<open>expected * 0.7\<close> is the float product of the converted integer and the double
  of the literal; Python compares the integer \<open>total_filled\<close> with that float by
  value.
\<close>

definition fv_urgency :: "int \<Rightarrow> int \<Rightarrow> int \<Rightarrow> Urgency" where
  "fv_urgency order_sz hour filled =
     (let expected = (order_sz div 7) * (hour + 1)
      in if (of_int filled :: rat) < float_mul_int expected (py_float (7/10)) then CRITICAL
         else if (of_int filled :: rat) < float_mul_int expected (py_float (9/10)) then URGENT
         else NORMAL)"

text \<open>
  The route loop works on \<open>(snapshots, slice_filled, slice_value)\<close>; every route
  asks for \<open>slice_size // num_routes\<close>.
\<close>

type_synonym fv_route_state = "snapshot list \<times> int \<times> rat"

definition fv_route_step ::
  "draws \<Rightarrow> string \<Rightarrow> rat \<Rightarrow> rat \<Rightarrow> nat \<Rightarrow> nat \<Rightarrow> int \<Rightarrow> int \<Rightarrow> nat
   \<Rightarrow> fv_route_state \<Rightarrow> fv_route_state" where
  "fv_route_step d detail fade_rate partial_rate hour sl slice_size num_routes route_num st =
     (case st of (snaps, slice_filled, slice_value) \<Rightarrow>
        let route_size = slice_size div num_routes;
            outcome = fv_venue_outcome fade_rate partial_rate (outcome_rand d hour sl route_num)
                        (reject_rand d hour sl route_num) route_size (price_draw d hour sl route_num);
            result = fst outcome;
            filled_qty = fst (snd outcome);
            fill_price = snd (snd outcome);
            snaps = (if detail = ''full''
                     then snaps @ [\<lparr>snap_order = fv_sor_order route_size outcome,
                                    event_type = ''VENUE_'' @ VenueResult_value result\<rparr>]
                     else snaps)
        in (snaps, slice_filled + filled_qty, slice_value + of_int filled_qty * fill_price))"

fun fv_route_loop ::
  "draws \<Rightarrow> string \<Rightarrow> rat \<Rightarrow> rat \<Rightarrow> nat \<Rightarrow> nat \<Rightarrow> int \<Rightarrow> int \<Rightarrow> nat list
   \<Rightarrow> fv_route_state \<Rightarrow> fv_route_state" where
  "fv_route_loop d detail fade_rate partial_rate hour sl slice_size num_routes [] st = st"
| "fv_route_loop d detail fade_rate partial_rate hour sl slice_size num_routes (route_num # rest) st =
     (if fst (snd st) \<ge> slice_size then st
      else fv_route_loop d detail fade_rate partial_rate hour sl slice_size num_routes rest
             (fv_route_step d detail fade_rate partial_rate hour sl slice_size num_routes route_num st))"

definition fv_slice_step ::
  "draws \<Rightarrow> int \<Rightarrow> string \<Rightarrow> rat \<Rightarrow> rat \<Rightarrow> nat \<Rightarrow> Urgency \<Rightarrow> nat \<Rightarrow> fv_state \<Rightarrow> fv_state" where
  "fv_slice_step d order_sz detail fade_rate partial_rate hour urgency sl st =
     (let slice_size = min (slice_draw d hour sl) (order_sz - fv_total_filled st);
          slice_order = new_order 2 slice_size ''PENDING'';
          snaps = (if detail = ''full''
                   then fv_snapshots st @ [\<lparr>snap_order = slice_order, event_type = ''NEW''\<rparr>]
                   else fv_snapshots st);
          num_routes = (if urgency = CRITICAL \<or> urgency = URGENT then 3 else 2);
          (snaps, slice_filled, slice_value) =
             fv_route_loop d detail fade_rate partial_rate hour sl slice_size (int num_routes)
               [0..<num_routes] (snaps, 0, 0);
          snaps = (if detail = ''summary'' \<and> slice_filled > 0
                   then snaps @ [\<lparr>snap_order = slice_order\<lparr>
                                     filled_quantity := slice_filled,
                                     remaining_quantity := slice_size - slice_filled,
                                     average_price := (if slice_filled > 0
                                                       then slice_value / of_int slice_filled else 0),
                                     state := (if slice_filled \<ge> slice_size
                                               then ''FILLED'' else ''PARTIAL'')\<rparr>,
                                  event_type = ''SLICE_SUMMARY''\<rparr>]
                   else snaps)
      in st\<lparr>fv_snapshots := snaps,
            fv_total_filled := fv_total_filled st + slice_filled,
            fv_total_value := fv_total_value st + slice_value,
            fv_slice_counter := fv_slice_counter st + 1\<rparr>)"

fun fv_slice_loop ::
  "draws \<Rightarrow> int \<Rightarrow> string \<Rightarrow> rat \<Rightarrow> rat \<Rightarrow> nat \<Rightarrow> Urgency \<Rightarrow> nat list \<Rightarrow> fv_state \<Rightarrow> fv_state" where
  "fv_slice_loop d order_sz detail fade_rate partial_rate hour urgency [] st = st"
| "fv_slice_loop d order_sz detail fade_rate partial_rate hour urgency (sl # rest) st =
     (if fv_total_filled st \<ge> order_sz then st
      else fv_slice_loop d order_sz detail fade_rate partial_rate hour urgency rest
             (fv_slice_step d order_sz detail fade_rate partial_rate hour urgency sl st))"

text \<open>One hour: the slices, then the hourly client update (lines 288--300).\<close>

definition fv_hour_step ::
  "draws \<Rightarrow> int \<Rightarrow> string \<Rightarrow> rat \<Rightarrow> rat \<Rightarrow> int \<Rightarrow> int \<Rightarrow> nat \<Rightarrow> fv_state \<Rightarrow> fv_state" where
  "fv_hour_step d order_sz detail fade_rate partial_rate num_slices slices_per_hour hour st =
     (let urgency = fv_urgency order_sz (int hour) (fv_total_filled st);
          hour_slices = (if int hour < 7 - 1 then slices_per_hour
                         else num_slices - fv_slice_counter st + 1);
          st = fv_slice_loop d order_sz detail fade_rate partial_rate hour urgency
                 [0..<nat (min hour_slices 50)] st;
          client = (fv_client st)\<lparr>
                     filled_quantity := fv_total_filled st,
                     remaining_quantity := order_sz - fv_total_filled st,
                     average_price := (if fv_total_filled st > 0
                                       then fv_total_value st / of_int (fv_total_filled st) else 0),
                     state := (if fv_total_filled st < order_sz then ''WORKING'' else ''FILLED'')\<rparr>
      in st\<lparr>fv_client := client,
            fv_snapshots := fv_snapshots st @ [\<lparr>snap_order = client, event_type = ''CLIENT_UPDATE''\<rparr>]\<rparr>)"

fun fv_hour_loop ::
  "draws \<Rightarrow> int \<Rightarrow> string \<Rightarrow> rat \<Rightarrow> rat \<Rightarrow> int \<Rightarrow> int \<Rightarrow> nat list \<Rightarrow> fv_state \<Rightarrow> fv_state" where
  "fv_hour_loop d order_sz detail fade_rate partial_rate num_slices slices_per_hour [] st = st"
| "fv_hour_loop d order_sz detail fade_rate partial_rate num_slices slices_per_hour (hour # rest) st =
     (if fv_total_filled st \<ge> order_sz then st
      else fv_hour_loop d order_sz detail fade_rate partial_rate num_slices slices_per_hour rest
             (fv_hour_step d order_sz detail fade_rate partial_rate num_slices slices_per_hour hour st))"

text \<open>
  The state after the hour loop, for a non-zero \<open>avg_slice_size\<close>; the function
  returns its snapshot list. The closing \<open>print\<close> divides by \<open>order_size\<close>.
\<close>

definition fv_final_state :: "draws \<Rightarrow> int \<Rightarrow> int \<Rightarrow> string \<Rightarrow> rat \<Rightarrow> rat \<Rightarrow> fv_state" where
  "fv_final_state d order_sz avg_slice_sz detail fade_rate partial_rate =
     (let num_slices = order_sz div avg_slice_sz;
          client = new_order 0 order_sz ''PENDING'';
          snaps = [\<lparr>snap_order = client, event_type = ''NEW''\<rparr>];
          algo = new_order 1 order_sz ''WORKING'';
          snaps = (if detail \<noteq> ''client_only''
                   then snaps @ [\<lparr>snap_order = algo, event_type = ''NEW''\<rparr>] else snaps);
          slices_per_hour = num_slices div 7
      in fv_hour_loop d order_sz detail fade_rate partial_rate num_slices slices_per_hour
           [0..<7]
           \<lparr>fv_snapshots = snaps, fv_total_filled = 0, fv_total_value = 0,
            fv_slice_counter = 1, fv_client = client\<rparr>)"

definition generate_final_vwap ::
  "draws \<Rightarrow> int \<Rightarrow> int \<Rightarrow> string \<Rightarrow> rat \<Rightarrow> rat \<Rightarrow> py_error + snapshot list" where
  "generate_final_vwap d order_sz avg_slice_sz detail fade_rate partial_rate =
     (if avg_slice_sz = 0 then Inl ZeroDivisionError
      else
        let st = fv_final_state d order_sz avg_slice_sz detail fade_rate partial_rate
        in if order_sz = 0 then Inl ZeroDivisionError else Inr (fv_snapshots st))"

text \<open>The view of a consumer that filters the log by \<open>order_level = 0\<close>.\<close>

definition client_view :: "snapshot list \<Rightarrow> order list" where
  "client_view snaps = filter (\<lambda>ord. order_level ord = 0) (map snap_order snaps)"

section \<open>generate_tick_database.py\<close>

text \<open>
  \<open>TickDatabaseGenerator.generate_complete_flow\<close>, the part that accounts for
  fills. \<open>fills_data\<close> is the append-only fill log of the whole order (entries
  \<open>qty\<close>, \<open>price\<close>). The venue loop of one slice takes, for each selected venue,
  the random size adjustment and the fill price. \<open>slice_value\<close> is a running
  float total; the parent's \<open>total_value\<close> is recomputed from the whole log by
  \<open>sum\<close> at every cascade.
\<close>

record tick_state =
  tk_quantity :: int
  tk_total_filled :: int
  tk_fills_data :: "fill list"
  tk_algo_parent :: order
  tk_client_order :: order
  tk_snapshots :: "snapshot list"

type_synonym tick_venue_state = "fill list \<times> snapshot list \<times> int \<times> rat"

definition tick_venue_step ::
  "int \<Rightarrow> int \<Rightarrow> int \<times> rat \<Rightarrow> tick_venue_state \<Rightarrow> tick_venue_state" where
  "tick_venue_step slice_qty num_venues venue_draw st =
     (case st of (fills_data, snaps, slice_filled, slice_value) \<Rightarrow>
        let venue_qty = min (slice_qty div num_venues + fst venue_draw) (slice_qty - slice_filled)
        in if venue_qty \<le> 0 then st
           else
             let sor_child = (new_order 3 venue_qty ''SENT'');
                 snaps = snaps @ [\<lparr>snap_order = sor_child, event_type = ''NEW''\<rparr>];
                 fill_price = snd venue_draw;
                 sor_child = sor_child\<lparr>filled_quantity := venue_qty,
                                       remaining_quantity := 0,
                                       average_price := fill_price,
                                       state := ''FILLED''\<rparr>;
                 snaps = snaps @ [\<lparr>snap_order = sor_child, event_type = ''FILL''\<rparr>]
             in (fills_data @ [\<lparr>fquantity = venue_qty, fprice = fill_price\<rparr>], snaps,
                 slice_filled + venue_qty,
                 float_add slice_value (float_mul_int venue_qty fill_price)))"

fun tick_venue_loop ::
  "int \<Rightarrow> int \<Rightarrow> (int \<times> rat) list \<Rightarrow> tick_venue_state \<Rightarrow> tick_venue_state" where
  "tick_venue_loop slice_qty num_venues [] st = st"
| "tick_venue_loop slice_qty num_venues (venue_draw # rest) st =
     (if fst (snd (snd st)) \<ge> slice_qty then st
      else tick_venue_loop slice_qty num_venues rest
             (tick_venue_step slice_qty num_venues venue_draw st))"

text \<open>
  One slice after the \<open>slice_qty \<le> 0\<close> test: lines 117--239. \<open>venue_draws\<close> has one
  entry per selected venue, so \<open>num_venues\<close> is its length (1 to 3 in the source).
\<close>

definition tick_slice_step :: "int \<Rightarrow> (int \<times> rat) list \<Rightarrow> tick_state \<Rightarrow> tick_state" where
  "tick_slice_step slice_qty venue_draws st =
     (let algo_child = new_order 2 slice_qty ''PENDING'';
          snaps = tk_snapshots st @ [\<lparr>snap_order = algo_child, event_type = ''NEW''\<rparr>];
          num_venues = int (length venue_draws);
          (fills_data, snaps, slice_filled, slice_value) =
             tick_venue_loop slice_qty num_venues venue_draws (tk_fills_data st, snaps, 0, 0);
          st = st\<lparr>tk_fills_data := fills_data, tk_snapshots := snaps\<rparr>
      in if slice_filled > 0
         then
           let algo_child = algo_child\<lparr>
                  filled_quantity := slice_filled,
                  remaining_quantity := slice_qty - slice_filled,
                  average_price := (if slice_filled > 0
                                    then float_div_int slice_value slice_filled else 0),
                  state := (if slice_filled \<ge> slice_qty then ''FILLED'' else ''PARTIAL'')\<rparr>;
               snaps = tk_snapshots st @ [\<lparr>snap_order = algo_child, event_type = ''FILL''\<rparr>];
               total_fill = tk_total_filled st + slice_filled;
               total_value = fills_float_value (tk_fills_data st);
               algo = (tk_algo_parent st)\<lparr>
                  filled_quantity := total_fill,
                  remaining_quantity := tk_quantity st - total_fill,
                  average_price := (if total_fill > 0 then float_div_int total_value total_fill else 0),
                  state := (if total_fill < tk_quantity st then ''WORKING'' else ''FILLED'')\<rparr>;
               snaps = snaps @ [\<lparr>snap_order = algo, event_type = ''FILL''\<rparr>];
               client = (tk_client_order st)\<lparr>
                  filled_quantity := total_fill,
                  remaining_quantity := tk_quantity st - total_fill,
                  average_price := (if total_fill > 0 then float_div_int total_value total_fill else 0),
                  state := (if total_fill < tk_quantity st then ''WORKING'' else ''FILLED'')\<rparr>;
               snaps = snaps @ [\<lparr>snap_order = client, event_type = ''FILL''\<rparr>]
           in st\<lparr>tk_total_filled := total_fill, tk_algo_parent := algo,
                 tk_client_order := client, tk_snapshots := snaps\<rparr>
         else st)"

text \<open>
  The slices of the whole session in the order the two nested loops visit them.
  Both loops \<open>break\<close> on the same test \<open>total_filled >= self.quantity\<close>, which
  nothing changes between the inner and the outer test, so the first \<open>break\<close> ends
  the session; a slice whose size is not positive is skipped (\<open>continue\<close>).
\<close>

definition tick_initial :: "int \<Rightarrow> tick_state" where
  "tick_initial qty =
     \<lparr>tk_quantity = qty, tk_total_filled = 0, tk_fills_data = [],
      tk_algo_parent = new_order 1 qty ''WORKING'',
      tk_client_order = (new_order 0 qty ''PENDING'')\<lparr>state := ''ACCEPTED''\<rparr>,
      tk_snapshots = [\<lparr>snap_order = new_order 0 qty ''PENDING'', event_type = ''NEW''\<rparr>,
                      \<lparr>snap_order = (new_order 0 qty ''PENDING'')\<lparr>state := ''ACCEPTED''\<rparr>,
                       event_type = ''ACCEPTED''\<rparr>,
                      \<lparr>snap_order = new_order 1 qty ''WORKING'', event_type = ''NEW''\<rparr>]\<rparr>"

fun tick_slices :: "(int \<times> (int \<times> rat) list) list \<Rightarrow> tick_state \<Rightarrow> tick_state" where
  "tick_slices [] st = st"
| "tick_slices ((size_draw, venue_draws) # rest) st =
     (if tk_total_filled st \<ge> tk_quantity st then st
      else
        let slice_qty = min size_draw (tk_quantity st - tk_total_filled st)
        in if slice_qty \<le> 0 then tick_slices rest st
           else tick_slices rest (tick_slice_step slice_qty venue_draws st))"

section \<open>generate_realistic_flow.py\<close>

text \<open>
  Lines 260--266: the slice is updated once, from the totals \<open>slice_filled\<close> and
  \<open>slice_value\<close> accumulated over all its routes.
\<close>

definition rf_update_slice :: "order \<Rightarrow> int \<Rightarrow> int \<Rightarrow> rat \<Rightarrow> order" where
  "rf_update_slice slice_order config_qty slice_filled slice_value =
     slice_order\<lparr>filled_quantity := slice_filled,
                 remaining_quantity := config_qty - slice_filled,
                 average_price := (if slice_filled > 0 then slice_value / of_int slice_filled else 0),
                 state := (if slice_filled \<ge> config_qty then ''FILLED'' else ''PARTIAL'')\<rparr>"

section \<open>sor_simulator_enhanced.py\<close>

subsection \<open>EnhancedVenue.execute_order\<close>

datatype OrderInstruction = EOE | FOK | IOC | DAY | LIMIT

datatype VenueResponse = FILLED_R | PARTIAL_R | FADE_R | REJECTED_R | NO_LIQUIDITY_R

fun VenueResponse_value :: "VenueResponse \<Rightarrow> string" where
  "VenueResponse_value FILLED_R = ''FILLED''"
| "VenueResponse_value PARTIAL_R = ''PARTIAL''"
| "VenueResponse_value FADE_R = ''FADE''"
| "VenueResponse_value REJECTED_R = ''REJECTED''"
| "VenueResponse_value NO_LIQUIDITY_R = ''NO_LIQUIDITY''"

text \<open>
  What one call of \<open>execute_order\<close> draws: the uniform draw of the fade test, the
  liquidity the venue sees in its own market tick, the uniform draw of the
  execute-or-eliminate rejection, and the price (\<open>ask\<close> or \<open>bid\<close> by side).
  \<open>fade_level\<close> is \<open>fade_probability * competition_level\<close>.
\<close>

record venue_draw =
  fade_rand :: rat
  available_liquidity :: int
  eoe_rand :: rat
  touch_price :: rat

definition execute_order ::
  "rat \<Rightarrow> int \<Rightarrow> OrderInstruction \<Rightarrow> venue_draw \<Rightarrow> VenueResponse \<times> int \<times> rat" where
  "execute_order fade_level requested_qty instruction vd =
     (if fade_rand vd < fade_level then (FADE_R, 0, 0)
      else if available_liquidity vd = 0 then (NO_LIQUIDITY_R, 0, 0)
      else if instruction = EOE then
        (if available_liquidity vd < requested_qty
         then (if eoe_rand vd < 3/10 then (REJECTED_R, 0, 0)
               else (PARTIAL_R, available_liquidity vd, touch_price vd))
         else (FILLED_R, requested_qty, touch_price vd))
      else if instruction = IOC then
        (let fill_qty = min requested_qty (available_liquidity vd)
         in if fill_qty > 0
            then (if fill_qty = requested_qty then FILLED_R else PARTIAL_R, fill_qty, touch_price vd)
            else (NO_LIQUIDITY_R, 0, 0))
      else (FILLED_R, min requested_qty (available_liquidity vd), touch_price vd))"

subsection \<open>EnhancedSmartOrderRouter.route_order\<close>

text \<open>
  An execution record keeps the fields of the dict that describe the attempt.
  The router's inputs from the outside: \<open>venues\<close>, the dict from venue name to
  venue (here its fade level; a missing name is the \<open>KeyError\<close> of
  \<open>self.venues[venue_name]\<close>), the liquidity table of the market tick of each pass,
  and the venue draws of each attempt.
\<close>

datatype sor_error = KeyError

record execution_record =
  er_venue :: string
  er_instruction :: OrderInstruction
  er_requested_qty :: int
  er_filled_qty :: int
  er_response :: VenueResponse
  er_retry_count :: int

record sor_env =
  venues :: "string \<rightharpoonup> rat"
  tick_liquidity :: "int \<Rightarrow> (string \<times> int) list"
  venue_draws :: "int \<Rightarrow> string \<Rightarrow> venue_draw"

record sor_state =
  remaining_qty :: int
  sor_total_filled :: int
  round_fills :: int
  execution_records :: "execution_record list"
  sor_snapshots :: "snapshot list"

text \<open>\<open>liquidity.get(venue_name, 0)\<close> on the dict built from the items.\<close>

definition liquidity_get :: "(string \<times> int) list \<Rightarrow> string \<Rightarrow> int" where
  "liquidity_get liquidity venue_name =
     (case map_of liquidity venue_name of None \<Rightarrow> 0 | Some l \<Rightarrow> l)"

text \<open>
  \<open>sorted(liquidity.items(), key=lambda x: x[1], reverse=True)[:3]\<close>: descending
  by liquidity, equal entries staying in dict order.
\<close>

definition select_venues :: "(string \<times> int) list \<Rightarrow> string list" where
  "select_venues liquidity = map fst (take 3 (sort_key (\<lambda>v. - snd v) liquidity))"

text \<open>
  Lines 216--242: the update of the route order by response. Only \<open>state\<close>,
  \<open>filled_quantity\<close> and, for a fill, \<open>average_price\<close> are assigned.
\<close>

definition update_sor_order :: "order \<Rightarrow> VenueResponse \<times> int \<times> rat \<Rightarrow> order" where
  "update_sor_order sor_order outcome =
     (case outcome of (response, filled_qty, fill_price) \<Rightarrow>
        if response = FILLED_R
        then sor_order\<lparr>state := ''FILLED'', filled_quantity := filled_qty,
                       average_price := fill_price\<rparr>
        else if response = PARTIAL_R
        then sor_order\<lparr>state := ''PARTIAL'', filled_quantity := filled_qty,
                       average_price := fill_price\<rparr>
        else if response = FADE_R
        then sor_order\<lparr>state := ''FADE'', filled_quantity := 0\<rparr>
        else if response = NO_LIQUIDITY_R
        then sor_order\<lparr>state := ''NO_FILL'', filled_quantity := 0\<rparr>
        else sor_order\<lparr>state := ''REJECTED'', filled_quantity := 0\<rparr>)"

text \<open>One venue of a pass, after the \<open>break\<close> test of the venue loop.\<close>

definition venue_attempt ::
  "sor_env \<Rightarrow> int \<Rightarrow> OrderInstruction \<Rightarrow> (string \<times> int) list \<Rightarrow> string
   \<Rightarrow> sor_state \<Rightarrow> sor_error + sor_state" where
  "venue_attempt env retry_count instruction liquidity venue_name st =
     (let venue_liquidity = liquidity_get liquidity venue_name;
          slice_qty = min (remaining_qty st) venue_liquidity
      in if slice_qty \<le> 0 then Inr st
         else
           let sor_order = new_order 3 slice_qty ''PENDING''
           in case venues env venue_name of
                None \<Rightarrow> Inl KeyError
              | Some fade_level \<Rightarrow>
                  let outcome = execute_order fade_level (quantity sor_order) instruction
                                  (venue_draws env retry_count venue_name);
                      response = fst outcome;
                      filled_qty = fst (snd outcome);
                      execution_record =
                        \<lparr>er_venue = venue_name, er_instruction = instruction,
                         er_requested_qty = slice_qty, er_filled_qty = filled_qty,
                         er_response = response, er_retry_count = retry_count\<rparr>;
                      sor_order = update_sor_order sor_order outcome;
                      st = st\<lparr>execution_records := execution_records st @ [execution_record]\<rparr>;
                      st = (if filled_qty > 0
                            then st\<lparr>round_fills := round_fills st + filled_qty,
                                    remaining_qty := remaining_qty st - filled_qty,
                                    sor_total_filled := sor_total_filled st + filled_qty\<rparr>
                            else st)
                  in Inr (st\<lparr>sor_snapshots := sor_snapshots st @
                               [\<lparr>snap_order = sor_order,
                                 event_type = ''SOR_'' @ VenueResponse_value response\<rparr>]\<rparr>))"

fun venue_loop ::
  "sor_env \<Rightarrow> int \<Rightarrow> OrderInstruction \<Rightarrow> (string \<times> int) list \<Rightarrow> string list
   \<Rightarrow> sor_state \<Rightarrow> sor_error + sor_state" where
  "venue_loop env retry_count instruction liquidity [] st = Inr st"
| "venue_loop env retry_count instruction liquidity (venue_name # rest) st =
     (if remaining_qty st \<le> 0 then Inr st
      else case venue_attempt env retry_count instruction liquidity venue_name st of
             Inl e \<Rightarrow> Inl e
           | Inr st' \<Rightarrow> venue_loop env retry_count instruction liquidity rest st')"

text \<open>One pass of the \<open>while\<close> loop: lines 153--262 without the counter.\<close>

definition routing_pass :: "sor_env \<Rightarrow> int \<Rightarrow> sor_state \<Rightarrow> sor_error + sor_state" where
  "routing_pass env retry_count st =
     (let liquidity = tick_liquidity env retry_count;
          selected_venues = select_venues liquidity;
          instruction = (if retry_count = 0 then EOE else IOC)
      in venue_loop env retry_count instruction liquidity selected_venues
           (st\<lparr>round_fills := 0\<rparr>))"

text \<open>
  The \<open>while remaining_qty > 0 and retry_count <= self.max_retries\<close> loop. Both
  branches of the closing \<open>if\<close> add one to \<open>retry_count\<close>. The result carries the
  final \<open>retry_count\<close>, the number of passes made.
\<close>

function route_passes :: "sor_env \<Rightarrow> int \<Rightarrow> int \<Rightarrow> sor_state \<Rightarrow> sor_error + (int \<times> sor_state)" where
  "route_passes env max_retries retry_count st =
     (if remaining_qty st > 0 \<and> retry_count \<le> max_retries
      then case routing_pass env retry_count st of
             Inl e \<Rightarrow> Inl e
           | Inr st' \<Rightarrow> route_passes env max_retries (retry_count + 1) st'
      else Inr (retry_count, st))"
  by pat_completeness auto
termination
  by (relation "measure (\<lambda>(env, max_retries, retry_count, st). nat (max_retries + 1 - retry_count))")
     auto

declare route_passes.simps [simp del]

definition sor_initial :: "order \<Rightarrow> sor_state" where
  "sor_initial algo_child =
     \<lparr>remaining_qty = quantity algo_child, sor_total_filled = 0, round_fills = 0,
      execution_records = [], sor_snapshots = []\<rparr>"

text \<open>
  \<open>route_order\<close> returns \<open>(execution_records, total_filled, timestamp)\<close>; the
  model returns the records and \<open>total_filled\<close>.
\<close>

definition route_order ::
  "sor_env \<Rightarrow> int \<Rightarrow> order \<Rightarrow> sor_error + (execution_record list \<times> int)" where
  "route_order env max_retries algo_child =
     (case route_passes env max_retries 0 (sor_initial algo_child) of
        Inl e \<Rightarrow> Inl e
      | Inr (retry_count, st) \<Rightarrow> Inr (execution_records st, sor_total_filled st))"

section \<open>Derived notions and concrete runs\<close>

text \<open>The client order carries the parent's four accounting fields.\<close>

definition mirrors :: "order \<Rightarrow> order \<Rightarrow> bool" where
  "mirrors client parent \<longleftrightarrow>
     filled_quantity client = filled_quantity parent
   \<and> remaining_quantity client = remaining_quantity parent
   \<and> average_price client = average_price parent
   \<and> state client = state parent"

text \<open>
  The urgency table as the specification words it: the participation rate is
  \<open>actual_filled / expected_cumulative\<close>, 100% when nothing is expected, and the
  class is read off the rate.
\<close>

definition spec_participation_rate :: "int \<Rightarrow> int \<Rightarrow> rat" where
  "spec_participation_rate actual_filled expected =
     (if expected = 0 then 1 else of_int actual_filled / of_int expected)"

definition spec_urgency :: "rat \<Rightarrow> Urgency" where
  "spec_urgency rate =
     (if 95/100 \<le> rate then PASSIVE
      else if 85/100 \<le> rate \<and> rate < 95/100 then NORMAL
      else if 70/100 \<le> rate \<and> rate < 85/100 then URGENT
      else CRITICAL)"

text \<open>
  The accounting of the router's loop state against the requested quantity \<open>q\<close>.
\<close>

definition sor_inv :: "int \<Rightarrow> sor_state \<Rightarrow> bool" where
  "sor_inv q st \<longleftrightarrow>
     0 \<le> remaining_qty st \<and> 0 \<le> sor_total_filled st
   \<and> sor_total_filled st + remaining_qty st = q"

text \<open>
  What the execution records say about a run of the router, read from the records
  alone. The fill the router counts for a record is its \<open>filled_qty\<close> when
  positive. \<open>record_sent env residual rec\<close>: the record is an order sent in pass
  \<open>retry_count\<close> to one of the venues selected from that pass's market tick, for
  the smaller of the residual and the venue's liquidity, with \<open>EOE\<close> in the first
  pass and \<open>IOC\<close> in a retry, and its response and filled quantity are the answer
  of \<open>execute_order\<close> to that request. \<open>records_replay\<close> checks the records in
  order, each against the residual the earlier fills leave. \<open>filled_before p\<close> is
  what the passes before \<open>p\<close> filled. \<open>pass_sent\<close>: pass \<open>p\<close> sent an order
  to its first venue if that venue showed liquidity. \<open>pass_complete\<close>: pass \<open>p\<close>
  sent an order to each of its venues, unless the venue showed no liquidity or the
  residual was used up by the end of the pass. \<open>sor_trace\<close> is what the loops keep
  true in pass \<open>p\<close>.
\<close>

definition counted_fill :: "execution_record \<Rightarrow> int" where
  "counted_fill rec = max 0 (er_filled_qty rec)"

definition records_filled :: "execution_record list \<Rightarrow> int" where
  "records_filled recs = sum_list (map counted_fill recs)"

definition record_sent :: "sor_env \<Rightarrow> int \<Rightarrow> execution_record \<Rightarrow> bool" where
  "record_sent env residual rec \<longleftrightarrow>
     (let p = er_retry_count rec;
          liquidity = tick_liquidity env p;
          venue_name = er_venue rec
      in 0 \<le> p
       \<and> venue_name \<in> set (select_venues liquidity)
       \<and> er_instruction rec = (if p = 0 then EOE else IOC)
       \<and> er_requested_qty rec = min residual (liquidity_get liquidity venue_name)
       \<and> 0 < er_requested_qty rec
       \<and> (case venues env venue_name of
             None \<Rightarrow> False
           | Some fade_level \<Rightarrow>
               (let outcome = execute_order fade_level (er_requested_qty rec)
                                (er_instruction rec) (venue_draws env p venue_name)
                in er_response rec = fst outcome \<and> er_filled_qty rec = fst (snd outcome))))"

fun records_replay :: "sor_env \<Rightarrow> int \<Rightarrow> execution_record list \<Rightarrow> bool" where
  "records_replay env residual [] = True"
| "records_replay env residual (rec # rest) =
     (record_sent env residual rec
      \<and> records_replay env (residual - counted_fill rec) rest)"

definition filled_before :: "int \<Rightarrow> execution_record list \<Rightarrow> int" where
  "filled_before p recs = records_filled (filter (\<lambda>rec. er_retry_count rec < p) recs)"

definition pass_sent :: "sor_env \<Rightarrow> int \<Rightarrow> execution_record list \<Rightarrow> bool" where
  "pass_sent env p recs \<longleftrightarrow>
     (let liquidity = tick_liquidity env p;
          selected_venues = select_venues liquidity
      in selected_venues \<noteq> [] \<and> 0 < liquidity_get liquidity (hd selected_venues) \<longrightarrow>
           (\<exists>rec \<in> set recs. er_retry_count rec = p \<and> er_venue rec = hd selected_venues))"

definition pass_complete :: "sor_env \<Rightarrow> int \<Rightarrow> int \<Rightarrow> execution_record list \<Rightarrow> bool" where
  "pass_complete env q p recs \<longleftrightarrow>
     (let liquidity = tick_liquidity env p
      in \<forall>venue_name \<in> set (select_venues liquidity).
           (\<exists>rec \<in> set recs. er_retry_count rec = p \<and> er_venue rec = venue_name)
         \<or> liquidity_get liquidity venue_name \<le> 0
         \<or> q \<le> filled_before (p + 1) recs)"

definition sor_trace :: "sor_env \<Rightarrow> int \<Rightarrow> int \<Rightarrow> sor_state \<Rightarrow> bool" where
  "sor_trace env q p st \<longleftrightarrow>
     sor_inv q st
   \<and> sor_total_filled st = records_filled (execution_records st)
   \<and> records_replay env q (execution_records st)
   \<and> (\<forall>rec \<in> set (execution_records st). er_retry_count rec \<le> p)"

text \<open>
  The parent's price as both generators compute it from a fill log:
  \<open>sum(f['quantity'] * f['price'] for f in fills) / filled_quantity\<close> in float
  arithmetic, \<open>0\<close> when nothing is filled. The stored price is this value in the
  tick database generator and its \<open>round(..., 4)\<close> in the v2 simulator, for the
  log and the filled quantity the generator holds.
\<close>

definition float_mean :: "fill list \<Rightarrow> rat" where
  "float_mean fills =
     (if fills_quantity fills > 0
      then float_div_int (fills_float_value fills) (fills_quantity fills) else 0)"

text \<open>
  A value is the quantity-weighted mean of a log of \<open>n\<close> fills up to the roundings
  of the float computation when it lies between the mean times
  \<open>(1 - u)^(n+3) / (1 + u)\<close> and the mean times \<open>(1 + u)^(n+3) / (1 - u)\<close>,
  \<open>u = 2^-53\<close> being the largest relative error of one rounding.
\<close>

definition nonneg_fills :: "fill list \<Rightarrow> bool" where
  "nonneg_fills fills \<longleftrightarrow> (\<forall>f \<in> set fills. 0 \<le> fquantity f \<and> 0 \<le> fprice f)"

definition mean_within_rounding :: "fill list \<Rightarrow> rat \<Rightarrow> bool" where
  "mean_within_rounding fills x \<longleftrightarrow>
     vwap fills * ((1 - 1 / 2 ^ 53) ^ (length fills + 3) / (1 + 1 / 2 ^ 53)) \<le> x
   \<and> x \<le> vwap fills * ((1 + 1 / 2 ^ 53) ^ (length fills + 3) / (1 - 1 / 2 ^ 53))"

definition v2_inv :: "parent_data \<Rightarrow> bool" where
  "v2_inv pd \<longleftrightarrow>
     filled_quantity (pd_order pd) = fills_quantity (pd_fills pd)
   \<and> average_price (pd_order pd) = py_round4 (float_mean (pd_fills pd))"

definition tick_inv :: "tick_state \<Rightarrow> bool" where
  "tick_inv st \<longleftrightarrow>
     tk_total_filled st = fills_quantity (tk_fills_data st)
   \<and> filled_quantity (tk_algo_parent st) = fills_quantity (tk_fills_data st)
   \<and> average_price (tk_algo_parent st) = float_mean (tk_fills_data st)"

text \<open>
  What the generators keep true of their state for an order of \<open>n\<close> shares:
  the client order is the level-0 node and carries the running total, the total never
  exceeds \<open>n\<close>, and the client snapshots recorded so far are non-decreasing and
  bounded by the running total. Inside a slice the quantity still to route is counted
  as well. \<open>fv_done\<close> is what a full execution leaves in the log of
  \<open>generate_final_vwap\<close>.
\<close>

definition gen_inv :: "int \<Rightarrow> gen_state \<Rightarrow> bool" where
  "gen_inv n self \<longleftrightarrow>
     order_size self = n
   \<and> order_level (client_order self) = 0
   \<and> order_level (algo_parent self) = 1
   \<and> filled_quantity (client_order self) = total_filled self
   \<and> total_filled self \<le> n
   \<and> sorted (map filled_quantity (client_view (snapshots self)))
   \<and> (\<forall>ord \<in> set (client_view (snapshots self)). filled_quantity ord \<le> total_filled self)"

definition route_inv :: "int \<Rightarrow> int \<Rightarrow> route_state \<Rightarrow> bool" where
  "route_inv n slice_size st \<longleftrightarrow>
     (case st of (self, slice_order, slice_filled, slice_value) \<Rightarrow>
        gen_inv n self \<and> order_level slice_order = 2
      \<and> total_filled self + (slice_size - slice_filled) \<le> n)"

definition fv_inv :: "int \<Rightarrow> fv_state \<Rightarrow> bool" where
  "fv_inv n st \<longleftrightarrow>
     order_level (fv_client st) = 0
   \<and> fv_total_filled st \<le> n
   \<and> sorted (map filled_quantity (client_view (fv_snapshots st)))
   \<and> (\<forall>ord \<in> set (client_view (fv_snapshots st)). filled_quantity ord \<le> fv_total_filled st)"

definition fv_done :: "int \<Rightarrow> fv_state \<Rightarrow> bool" where
  "fv_done n st \<longleftrightarrow>
     (n \<le> fv_total_filled st \<longrightarrow>
         filled_quantity (last (client_view (fv_snapshots st))) = n
       \<and> state (last (client_view (fv_snapshots st))) = ''FILLED'')"

text \<open>
  Draws for a run in which every route fills completely: a first slice of 300 and
  slices of 100 afterwards.
\<close>

definition full_fill_draws :: draws where
  "full_fill_draws =
     \<lparr>slice_draw = (\<lambda>h s. if h = 0 then 300 else 100),
      outcome_rand = (\<lambda>h s r. 1/2),
      reject_rand = (\<lambda>h s r. 0),
      price_draw = (\<lambda>h s r. 650)\<rparr>"

text \<open>
  Draws for a run of \<open>generate\<close> in which the first slice (100 shares, three
  routes) is filled by a partial fill of 16 at price 10 and two full fills of 42 at
  price 20, and every later route fades.
\<close>

definition two_fill_draws :: draws where
  "two_fill_draws =
     \<lparr>slice_draw = (\<lambda>h s. 100),
      outcome_rand = (\<lambda>h s r. if h = 0 then (if r = 0 then 1/10 else 1/2) else 0),
      reject_rand = (\<lambda>h s r. 0),
      price_draw = (\<lambda>h s r. if r = 0 then 10 else 20)\<rparr>"

text \<open>
  Fill prices for one slice of \<open>run_vwap_simulation\<close> routed to three venues:
  the floats 650.0 at the first two and 650.01 at the third; and the same with
  650.0001499700061 at the third, which puts the mean of a slice of 10000 shares
  just above 650.00005.
\<close>

definition example_prices :: "nat \<Rightarrow> rat" where
  "example_prices idx = (if idx = 2 then py_float (65001/100) else 650)"

definition near_tie_prices :: "nat \<Rightarrow> rat" where
  "near_tie_prices idx = (if idx = 2 then py_float (6500001499700061/10000000000000) else 650)"

text \<open>
  The router as \<open>run_sor_simulation\<close> builds it for its first scenario
  (competition level 0.5, so the fade level is half the venue's fade probability),
  with a market tick in which the dark pool shows the most liquidity and a venue
  that has 6000 shares at 650.01 when asked.
\<close>

definition example_env :: sor_env where
  "example_env =
     \<lparr>venues = map_of [(''NYSE'', 1/40), (''NASDAQ'', 1/20), (''ARCA'', 3/40),
                        (''BATS'', 1/10), (''DARK'', 1/100), (''IEX'', 1/8)],
      tick_liquidity = (\<lambda>p. [(''NYSE'', 5000), (''NASDAQ'', 3000), (''ARCA'', 1000),
                               (''BATS'', 2000), (''DARK'', 8000), (''IEX'', 500)]),
      venue_draws = (\<lambda>p v. \<lparr>fade_rand = 1/2, available_liquidity = 6000,
                               eoe_rand = 1/2, touch_price = 65001/100\<rparr>)\<rparr>"

text \<open>The same router and market when every venue fades.\<close>

definition fading_env :: sor_env where
  "fading_env =
     example_env\<lparr>venue_draws := (\<lambda>p v. \<lparr>fade_rand = 0, available_liquidity = 6000,
                                          eoe_rand = 1/2, touch_price = 65001/100\<rparr>)\<rparr>"


section \<open>Rounding to the nearest double\<close>

text \<open>
  \<open>round_half_even\<close> stays within one half of its argument and is monotone;
  \<open>binary_exponent\<close> brackets a positive number between two powers of two.
  Hence \<open>py_float\<close> keeps the sign, is monotone, stays in the binade of its
  argument and has relative error at most \<open>2^-53\<close>.
\<close>

lemma round_half_even_bounds:
  "of_int (round_half_even y) \<le> y + 1/2" "y - 1/2 \<le> of_int (round_half_even y)"
proof -
  define f where "f = \<lfloor>y\<rfloor>"
  have f: "of_int f \<le> y" "y < of_int f + 1" unfolding f_def by linarith+
  have r: "round_half_even y =
     (if y - of_int f < 1/2 then f else if 1/2 < y - of_int f then f + 1
      else if even f then f else f + 1)"
    by (simp add: round_half_even_def Let_def f_def)
  show "of_int (round_half_even y) \<le> y + 1/2"
    unfolding r using f by (auto split: if_splits)
  show "y - 1/2 \<le> of_int (round_half_even y)"
    unfolding r using f by (auto split: if_splits)
qed

lemma round_half_even_ge_int:
  assumes "of_int n \<le> y"
  shows "n \<le> round_half_even y"
proof -
  have "n \<le> \<lfloor>y\<rfloor>" using assms by (simp add: le_floor_iff)
  then show ?thesis by (auto simp: round_half_even_def Let_def)
qed

lemma round_half_even_le_int:
  assumes "y \<le> of_int n"
  shows "round_half_even y \<le> n"
proof (cases "y = of_int n")
  case True
  then show ?thesis by (simp add: round_half_even_def Let_def)
next
  case False
  then have "y < of_int n" using assms by simp
  then have "\<lfloor>y\<rfloor> < n" by (simp add: floor_less_iff)
  then show ?thesis by (auto simp: round_half_even_def Let_def)
qed

lemma round_half_even_mono:
  assumes "y1 \<le> y2"
  shows "round_half_even y1 \<le> round_half_even y2"
proof (rule ccontr)
  assume "\<not> round_half_even y1 \<le> round_half_even y2"
  then have gt: "round_half_even y2 + 1 \<le> round_half_even y1" by simp
  then have "(of_int (round_half_even y2) :: rat) + 1 \<le> of_int (round_half_even y1)"
    by (metis of_int_1 of_int_add of_int_le_iff)
  with round_half_even_bounds(1) [of y1] round_half_even_bounds(2) [of y2] assms
  have "y1 = y2" by linarith
  with gt show False by simp
qed

lemma round_half_even_minus: "round_half_even (- y) = - round_half_even y"
proof (cases "y = of_int \<lfloor>y\<rfloor>")
  case True
  then obtain n where "y = of_int n" by metis
  then show ?thesis by (simp add: round_half_even_def Let_def)
next
  case False
  then have c: "\<lfloor>- y\<rfloor> = - \<lfloor>y\<rfloor> - 1"
    by (metis ceiling_altdef ceiling_def add_diff_cancel_right' minus_diff_eq
          diff_minus_eq_add minus_add_distrib uminus_add_conv_diff)
  show ?thesis
    unfolding round_half_even_def Let_def c
    by (auto simp: algebra_simps)
qed


lemma bitlen_powi_bounds:
  assumes "0 < a"
  shows "(2::rat) powi (bitlen a - 1) \<le> of_int a" "of_int a < (2::rat) powi (bitlen a)"
proof -
  have p: "0 < bitlen a"
    using assms bitlen_nonneg [of a] bitlen_eq_zero_iff [of a] by (cases "bitlen a = 0") auto
  have b: "2 ^ nat (bitlen a - 1) \<le> a" "a < 2 ^ nat (bitlen a)"
    using bitlen_bounds [OF assms] by auto
  have "(of_int (2 ^ nat (bitlen a - 1)) :: rat) \<le> of_int a"
    using b(1) by (simp only: of_int_le_iff)
  then show "(2::rat) powi (bitlen a - 1) \<le> of_int a"
    using p by (simp add: power_int_def)
  have "(of_int a :: rat) < of_int (2 ^ nat (bitlen a))"
    using b(2) by (simp only: of_int_less_iff)
  then show "of_int a < (2::rat) powi (bitlen a)"
    using p by (simp add: power_int_def)
qed

lemma binary_exponent_bounds:
  assumes "0 < x"
  shows "2 powi (binary_exponent x) \<le> x" "x < 2 powi (binary_exponent x + 1)"
proof -
  obtain a b where q: "quotient_of x = (a, b)" by (cases "quotient_of x")
  have b: "0 < b" using quotient_of_denom_pos [OF q] .
  have x: "x = of_int a / of_int b" using quotient_of_div [OF q] .
  have a: "0 < a" using assms x b by (simp add: zero_less_divide_iff)
  define e where "e = bitlen a - bitlen b"
  have lo: "2 powi (e - 1) \<le> x"
  proof -
    have "(2::rat) powi (e - 1) = 2 powi (bitlen a - 1) / 2 powi (bitlen b)"
      unfolding e_def by (simp add: power_int_diff)
    also have "\<dots> \<le> of_int a / 2 powi (bitlen b)"
      using bitlen_powi_bounds(1) [OF a] by (simp add: divide_right_mono)
    also have "\<dots> \<le> of_int a / of_int b"
      using bitlen_powi_bounds(2) [OF b] a b by (simp add: frac_le)
    finally show ?thesis using x by simp
  qed
  have hi: "x < 2 powi (e + 1)"
  proof -
    have "x = of_int a / of_int b" by (rule x)
    also have "\<dots> < 2 powi (bitlen a) / of_int b"
      using bitlen_powi_bounds(2) [OF a] b by (simp add: divide_strict_right_mono)
    also have "\<dots> \<le> 2 powi (bitlen a) / 2 powi (bitlen b - 1)"
      using bitlen_powi_bounds(1) [OF b] by (simp add: frac_le)
    also have "\<dots> = 2 powi (e + 1)"
      unfolding e_def by (simp add: power_int_diff [symmetric] algebra_simps)
    finally show ?thesis .
  qed
  have be: "binary_exponent x = (if 2 powi e \<le> x then e else e - 1)"
    by (simp add: binary_exponent_def q e_def Let_def)
  show "2 powi (binary_exponent x) \<le> x"
    unfolding be using lo by simp
  show "x < 2 powi (binary_exponent x + 1)"
    unfolding be using hi by (simp add: not_le)
qed

lemma powi_exponent_unique:
  assumes "(2::rat) powi e \<le> x" "x < 2 powi (e' + 1)"
  shows "e \<le> e'"
proof (rule ccontr)
  assume "\<not> e \<le> e'"
  then have "e' + 1 \<le> e" by simp
  then have "(2::rat) powi (e' + 1) \<le> 2 powi e"
    by (simp add: power_int_increasing)
  with assms show False by simp
qed

lemma binary_exponent_mono:
  assumes "0 < x" "x \<le> y"
  shows "binary_exponent x \<le> binary_exponent y"
proof -
  have "0 < y" using assms by simp
  from binary_exponent_bounds(1) [OF assms(1)] binary_exponent_bounds(2) [OF \<open>0 < y\<close>] assms(2)
  show ?thesis by (intro powi_exponent_unique [of _ x]) auto
qed

lemma binary_exponent_eqI:
  assumes "(2::rat) powi e \<le> x" "x < 2 powi (e + 1)"
  shows "binary_exponent x = e"
proof -
  have "(0::rat) < 2 powi e" by simp
  then have "0 < x" using assms(1) by (rule less_le_trans)
  from binary_exponent_bounds [OF this] assms
  have "binary_exponent x \<le> e" "e \<le> binary_exponent x"
    by (auto intro: powi_exponent_unique)
  then show ?thesis by simp
qed


lemma py_float_zero: "py_float 0 = 0"
  by (simp add: py_float_def)

lemma py_float_pos_eq:
  assumes "0 < x"
  shows "py_float x = of_int (round_half_even (x / 2 powi (binary_exponent x - 52)))
                        * 2 powi (binary_exponent x - 52)"
  using assms by (simp add: py_float_def Let_def)

lemma py_float_pos_bounds:
  assumes "0 < x"
  shows "2 powi (binary_exponent x) \<le> py_float x" "py_float x \<le> 2 powi (binary_exponent x + 1)"
proof -
  define e where "e = binary_exponent x"
  define ulp :: rat where "ulp = 2 powi (e - 52)"
  have ulp: "0 < ulp" by (simp add: ulp_def)
  have e: "2 powi e = 2 ^ 52 * ulp" "2 powi (e + 1) = 2 ^ 53 * ulp"
    by (simp_all add: ulp_def power_int_diff power_int_add)
  have b: "2 powi e \<le> x" "x < 2 powi (e + 1)"
    using binary_exponent_bounds [OF assms] by (simp_all add: e_def)
  have "of_int (2 ^ 52) \<le> x / ulp" using b(1) ulp by (simp add: e(1) pos_le_divide_eq)
  then have lo: "2 ^ 52 \<le> round_half_even (x / ulp)" by (rule round_half_even_ge_int)
  have "x / ulp \<le> of_int (2 ^ 53)" using b(2) ulp by (simp add: e(2) pos_divide_le_eq)
  then have hi: "round_half_even (x / ulp) \<le> 2 ^ 53" by (rule round_half_even_le_int)
  have f: "py_float x = of_int (round_half_even (x / ulp)) * ulp"
    using py_float_pos_eq [OF assms] by (simp add: ulp_def e_def)
  have "(of_int (2 ^ 52) :: rat) \<le> of_int (round_half_even (x / ulp))"
    using lo by (simp only: of_int_le_iff)
  then have "2 ^ 52 * ulp \<le> py_float x"
    unfolding f using ulp by (intro mult_right_mono) simp_all
  then show "2 powi (binary_exponent x) \<le> py_float x"
    using e(1) by (simp add: e_def)
  have "(of_int (round_half_even (x / ulp)) :: rat) \<le> of_int (2 ^ 53)"
    using hi by (simp only: of_int_le_iff)
  then have "py_float x \<le> 2 ^ 53 * ulp"
    unfolding f using ulp by (intro mult_right_mono) simp_all
  then show "py_float x \<le> 2 powi (binary_exponent x + 1)"
    using e(2) by (simp add: e_def)
qed

lemma py_float_minus: "py_float (- x) = - py_float x"
  by (simp add: py_float_def Let_def round_half_even_minus)

lemma py_float_nonneg:
  assumes "0 \<le> x"
  shows "0 \<le> py_float x"
proof (cases "x = 0")
  case True
  then show ?thesis by (simp add: py_float_zero)
next
  case False
  then have "0 < x" using assms by simp
  have "(0::rat) \<le> 2 powi (binary_exponent x)" by simp
  also have "\<dots> \<le> py_float x" by (rule py_float_pos_bounds(1) [OF \<open>0 < x\<close>])
  finally show ?thesis .
qed

lemma py_float_nonpos:
  assumes "x \<le> 0"
  shows "py_float x \<le> 0"
  using py_float_nonneg [of "- x"] assms by (simp add: py_float_minus)

lemma py_float_mono_pos:
  assumes "0 < x" "x \<le> y"
  shows "py_float x \<le> py_float y"
proof -
  have y: "0 < y" using assms by simp
  have le: "binary_exponent x \<le> binary_exponent y" by (rule binary_exponent_mono [OF assms])
  show ?thesis
  proof (cases "binary_exponent x = binary_exponent y")
    case True
    define ulp :: rat where "ulp = 2 powi (binary_exponent x - 52)"
    have ulp: "0 < ulp" by (simp add: ulp_def)
    have "x / ulp \<le> y / ulp" using assms(2) ulp by (simp add: divide_right_mono)
    then have "round_half_even (x / ulp) \<le> round_half_even (y / ulp)"
      by (rule round_half_even_mono)
    then have "(of_int (round_half_even (x / ulp)) :: rat) \<le> of_int (round_half_even (y / ulp))"
      by (simp only: of_int_le_iff)
    then have "of_int (round_half_even (x / ulp)) * ulp \<le> of_int (round_half_even (y / ulp)) * ulp"
      using ulp by (intro mult_right_mono) simp_all
    then show ?thesis
      using py_float_pos_eq [OF assms(1)] py_float_pos_eq [OF y] True by (simp add: ulp_def)
  next
    case False
    then have "binary_exponent x + 1 \<le> binary_exponent y" using le by simp
    then have "(2::rat) powi (binary_exponent x + 1) \<le> 2 powi (binary_exponent y)"
      by (simp add: power_int_increasing)
    with py_float_pos_bounds(2) [OF assms(1)] py_float_pos_bounds(1) [OF y]
    show ?thesis by linarith
  qed
qed

lemma py_float_mono:
  assumes "x \<le> y"
  shows "py_float x \<le> py_float y"
proof -
  consider "0 < x" | "x \<le> 0" "0 \<le> y" | "y < 0" by linarith
  then show ?thesis
  proof cases
    case 1
    then show ?thesis using assms by (rule py_float_mono_pos)
  next
    case 2
    then show ?thesis using py_float_nonpos [of x] py_float_nonneg [of y] by linarith
  next
    case 3
    then have "0 < - y" "- y \<le> - x" using assms by simp_all
    then have "py_float (- y) \<le> py_float (- x)" by (rule py_float_mono_pos)
    then show ?thesis by (simp add: py_float_minus)
  qed
qed

lemma py_float_error:
  assumes "0 \<le> x"
  shows "\<bar>py_float x - x\<bar> \<le> x / 2 ^ 53"
proof (cases "x = 0")
  case True
  then show ?thesis by (simp add: py_float_zero)
next
  case False
  then have pos: "0 < x" using assms by simp
  define e where "e = binary_exponent x"
  define ulp :: rat where "ulp = 2 powi (e - 52)"
  have ulp: "0 < ulp" by (simp add: ulp_def)
  have e: "2 powi e = 2 ^ 52 * ulp" by (simp add: ulp_def power_int_diff)
  have b: "2 ^ 52 * ulp \<le> x" using binary_exponent_bounds(1) [OF pos] e by (simp add: e_def)
  define m where "m = round_half_even (x / ulp)"
  have f: "py_float x = of_int m * ulp"
    using py_float_pos_eq [OF pos] by (simp add: ulp_def e_def m_def)
  have "\<bar>of_int m - x / ulp\<bar> \<le> 1/2"
    using round_half_even_bounds [of "x / ulp"] unfolding m_def by linarith
  then have "\<bar>of_int m - x / ulp\<bar> * ulp \<le> 1/2 * ulp"
    using ulp by (intro mult_right_mono) simp_all
  moreover have "\<bar>of_int m - x / ulp\<bar> * ulp = \<bar>py_float x - x\<bar>"
  proof -
    have "\<bar>of_int m - x / ulp\<bar> * ulp = \<bar>(of_int m - x / ulp) * ulp\<bar>"
      using ulp by (simp add: abs_mult)
    also have "(of_int m - x / ulp) * ulp = py_float x - x"
      using ulp by (simp add: f algebra_simps)
    finally show ?thesis .
  qed
  ultimately have "\<bar>py_float x - x\<bar> \<le> ulp / 2" by simp
  also have "\<dots> \<le> x / 2 ^ 53" using b by simp
  finally show ?thesis .
qed

lemma py_float_le:
  assumes "0 \<le> x"
  shows "py_float x \<le> x * (1 + 1 / 2 ^ 53)"
proof -
  have "py_float x - x \<le> x / 2 ^ 53" using py_float_error [OF assms] by linarith
  then show ?thesis by (simp add: algebra_simps)
qed

lemma round_half_even_of_int: "round_half_even (of_int n) = n"
  by (simp add: round_half_even_def Let_def)

lemma binary_exponent_powi: "binary_exponent (2 powi k) = k"
  by (rule binary_exponent_eqI) (simp_all add: power_int_strict_increasing)

lemma py_float_powi: "py_float (2 powi k) = 2 powi k"
proof -
  have "(2::rat) powi k / 2 powi (k - 52) = 2 powi 52"
    by (simp add: power_int_diff)
  also have "\<dots> = of_int (2 ^ 52)" by (simp add: power_int_def)
  finally have "round_half_even (2 powi k / 2 powi (k - 52)) = 2 ^ 52"
    by (simp only: round_half_even_of_int)
  moreover have "(of_int (2 ^ 52) :: rat) * 2 powi (k - 52) = 2 powi k"
    by (simp add: power_int_diff)
  ultimately show ?thesis
    using py_float_pos_eq [of "2 powi k"] by (simp add: binary_exponent_powi)
qed

lemma py_float_abs: "\<bar>py_float x\<bar> = py_float \<bar>x\<bar>"
proof (cases "0 \<le> x")
  case True
  then show ?thesis using py_float_nonneg [of x] by simp
next
  case False
  then have "py_float x \<le> 0" by (intro py_float_nonpos) simp
  then show ?thesis using False by (simp add: py_float_minus)
qed

lemma float_overflow_iff: "float_overflow x \<longleftrightarrow> 2 powi 1024 \<le> \<bar>x\<bar>"
proof (cases "x = 0")
  case True
  have "(0::rat) < 2 powi 1024" by simp
  then show ?thesis using True by (simp add: float_overflow_def not_le)
next
  case False
  then have pos: "0 < \<bar>x\<bar>" by simp
  show ?thesis
  proof
    assume "float_overflow x"
    then have "(2::rat) powi 1024 \<le> 2 powi (binary_exponent \<bar>x\<bar>)"
      by (intro power_int_increasing) (simp_all add: float_overflow_def)
    also have "\<dots> \<le> \<bar>x\<bar>" by (rule binary_exponent_bounds(1) [OF pos])
    finally show "2 powi 1024 \<le> \<bar>x\<bar>" .
  next
    assume "2 powi 1024 \<le> \<bar>x\<bar>"
    then have "1024 \<le> binary_exponent \<bar>x\<bar>"
      using binary_exponent_bounds(2) [OF pos] by (rule powi_exponent_unique)
    then show "float_overflow x" using False by (simp add: float_overflow_def)
  qed
qed


lemma float_overflow_bound_rat:
  assumes "\<bar>x\<bar> \<le> 2 powi k" and "k < 1024"
  shows "\<not> float_overflow (py_float x)"
proof -
  have "py_float \<bar>x\<bar> \<le> py_float (2 powi k)" using assms(1) by (rule py_float_mono)
  also have "\<dots> = 2 powi k" by (rule py_float_powi)
  also have "\<dots> < 2 powi 1024"
    using assms(2) by (intro power_int_strict_increasing) simp_all
  finally show ?thesis by (simp add: float_overflow_iff py_float_abs)
qed

lemma float_overflow_large:
  assumes "2 ^ n \<le> q" and "1024 \<le> n"
  shows "float_overflow (py_float (of_int q))"
proof -
  have "(2::rat) powi 1024 \<le> 2 powi (int n)"
    using assms(2) by (intro power_int_increasing) simp_all
  also have "\<dots> = py_float (2 powi (int n))" by (simp only: py_float_powi)
  also have "\<dots> \<le> py_float (of_int q)"
  proof (rule py_float_mono)
    have "(of_int (2 ^ n) :: rat) \<le> of_int q" using assms(1) by (simp only: of_int_le_iff)
    then show "(2::rat) powi (int n) \<le> of_int q" by (simp add: power_int_def)
  qed
  also have "\<dots> \<le> \<bar>py_float (of_int q)\<bar>" by simp
  finally show ?thesis by (simp only: float_overflow_iff)
qed

section \<open>Equal division across venues\<close>

lemma route_to_venue_quantity:
  "quantity (fst (route_to_venue d r k price idx)) = d + (if int idx = k - 1 then r else 0)"
  by (simp add: route_to_venue_def receive_order_def new_order_def Let_def)

lemma sum_list_split_last:
  fixes d r :: int
  shows "sum_list (map (\<lambda>idx. d + (if int idx = int n - 1 then r else 0)) [0..<n])
         = int n * d + (if n = 0 then 0 else r)"
proof (cases n)
  case 0
  then show ?thesis by simp
next
  case (Suc m)
  have "sum_list (map (\<lambda>idx. d + (if int idx = int (Suc m) - 1 then r else 0)) [0..<m])
        = sum_list (map (\<lambda>idx. d) [0..<m])"
    by (rule arg_cong [where f = sum_list], rule map_cong) auto
  then show ?thesis
    using Suc by (simp add: sum_list_triv algebra_simps)
qed

text \<open>
  C10. Splitting a slice of quantity \<open>q \<ge> 0\<close> across \<open>k \<ge> 1\<close> selected venues creates
  exactly \<open>k\<close> route orders; every one has a non-negative quantity, the quantities sum
  to exactly \<open>q\<close>, every order but the last gets \<open>q // k\<close> and the last one gets
  \<open>q // k + q % k\<close>.
\<close>

theorem route_order_v2_equal_division:
  assumes "0 \<le> quantity algo_child" and "selected_venues \<noteq> []"
  shows "\<exists>sor_orders fills child'.
           route_order_v2 algo_child selected_venues price = Inr (sor_orders, fills, child')
         \<and> length sor_orders = length selected_venues
         \<and> (\<forall>ord \<in> set sor_orders. 0 \<le> quantity ord)
         \<and> sum_list (map quantity sor_orders) = quantity algo_child
         \<and> (\<forall>i < length selected_venues - 1.
               quantity (sor_orders ! i) = quantity algo_child div int (length selected_venues))
         \<and> quantity (last sor_orders)
             = quantity algo_child div int (length selected_venues)
               + quantity algo_child mod int (length selected_venues)"
proof -
  define n where "n = length selected_venues"
  define q where "q = quantity algo_child"
  define sos where "sos = map (\<lambda>(idx, venue_name :: string).
      fst (route_to_venue (q div int n) (q mod int n) (int n) price idx)) (enumerate 0 selected_venues)"
  have npos: "0 < n" using assms(2) by (simp add: n_def)
  have len: "length sos = n" by (simp add: sos_def n_def)
  have nth: "quantity (sos ! i) = q div int n + (if int i = int n - 1 then q mod int n else 0)"
    if "i < n" for i
    using that by (simp add: sos_def n_def [symmetric] nth_enumerate_eq route_to_venue_quantity)
  have qs: "map quantity sos
            = map (\<lambda>idx. q div int n + (if int idx = int n - 1 then q mod int n else 0)) [0..<n]"
    by (rule nth_equalityI) (simp_all add: len nth)
  have sum: "sum_list (map quantity sos) = q"
    using npos by (simp add: qs sum_list_split_last)
  have nonneg: "0 \<le> quantity ord" if "ord \<in> set sos" for ord
  proof -
    from that obtain i where i: "i < n" "sos ! i = ord"
      by (auto simp: in_set_conv_nth len)
    have "0 \<le> q div int n" "0 \<le> q mod int n"
      using assms(1) npos by (simp_all add: q_def pos_imp_zdiv_nonneg_iff)
    then show ?thesis using nth [OF i(1)] i(2) by (auto split: if_splits)
  qed
  have last: "quantity (last sos) = q div int n + q mod int n"
  proof -
    have "sos \<noteq> []" using len npos by auto
    then have "last sos = sos ! (n - 1)" by (simp add: last_conv_nth len)
    then show ?thesis using nth [of "n - 1"] npos by (simp add: of_nat_diff)
  qed
  have front: "quantity (sos ! i) = q div int n" if "i < n - 1" for i
    using nth [of i] that by auto
  have run: "\<exists>fills child'. route_order_v2 algo_child selected_venues price = Inr (sos, fills, child')"
    using assms(2)
    by (simp add: route_order_v2_def Let_def sos_def n_def q_def split_def comp_def)
  from run len nonneg sum front last show ?thesis
    unfolding n_def q_def by blast
qed

theorem route_order_v2_equal_division_witness:
  "\<exists>sor_orders fills child'.
     route_order_v2 (new_order 2 10000 ''ACCEPTED'') [''NYSE'', ''ARCA'', ''DARK''] (\<lambda>_. 650)
       = Inr (sor_orders, fills, child')
   \<and> length sor_orders = 3
   \<and> (\<forall>ord \<in> set sor_orders. 0 \<le> quantity ord)
   \<and> sum_list (map quantity sor_orders) = 10000
   \<and> (\<forall>i < 2. quantity (sor_orders ! i) = 3333)
   \<and> quantity (last sor_orders) = 3334"
  using route_order_v2_equal_division
    [of "new_order 2 10000 ''ACCEPTED''" "[''NYSE'', ''ARCA'', ''DARK'']" "\<lambda>_. 650"]
  by (simp add: new_order_def numeral_2_eq_2 numeral_3_eq_3)


section \<open>Session schedule\<close>



lemma float_mul_int_nonneg:
  assumes "0 \<le> q" and "0 \<le> p"
  shows "0 \<le> float_mul_int q p"
  unfolding float_mul_int_def using assms
  by (intro py_float_nonneg mult_nonneg_nonneg) simp_all

lemma float_mul_int_le:
  assumes "0 \<le> q" and "0 \<le> p"
  shows "float_mul_int q p \<le> of_int q * p * (1 + 1 / 2 ^ 53)\<^sup>2"
proof -
  have q: "(0::rat) \<le> of_int q" using assms(1) by simp
  have fq: "0 \<le> py_float (of_int q)" by (rule py_float_nonneg [OF q])
  have "float_mul_int q p \<le> py_float (of_int q) * p * (1 + 1 / 2 ^ 53)"
    unfolding float_mul_int_def using fq assms(2) by (intro py_float_le mult_nonneg_nonneg)
  also have "\<dots> \<le> (of_int q * (1 + 1 / 2 ^ 53)) * p * (1 + 1 / 2 ^ 53)"
    using py_float_le [OF q] assms(2) by (intro mult_right_mono) simp_all
  finally show ?thesis by (simp add: power2_eq_square algebra_simps)
qed










lemma calculate_vwap_schedule_example:
  "calculate_vwap_schedule 1001 7 = Inr [150, 100, 80, 70, 80, 100, 421]"
  by code_simp

lemma calculate_vwap_schedule_large:
  "calculate_vwap_schedule 918505633119557 5
     = Inr [137775844967933, 91850563311955, 73480450649564, 64295394318369,
            551103379871736]"
  by code_simp

lemma calculate_vwap_schedule_overflow:
  assumes "2 ^ 1024 \<le> total_quantity" and "1 \<le> hours" and "hours \<le> 8"
  shows "calculate_vwap_schedule total_quantity hours = Inl OverflowError"
proof -
  have "length participation = 8" by (simp add: participation_def)
  then have "py_slice_to participation hours \<noteq> []"
    using assms(2) by (auto simp: py_slice_to_def)
  then show ?thesis
    using float_overflow_large [OF assms(1)] by (simp add: calculate_vwap_schedule_def)
qed


section \<open>Urgency classification\<close>

text \<open>
  The float rate \<open>(filled / expected) * 100\<close> reaches a threshold \<open>T\<close> exactly when
  the exact quotient reaches \<open>T/100\<close>, as long as \<open>expected\<close> is at most \<open>2^46\<close>:
  rounding is monotone, the double nearest to \<open>T/100\<close> times 100 rounds to \<open>T\<close>,
  and a quotient below \<open>T/100\<close> is below it by \<open>1/(100 * expected)\<close> at least,
  which two roundings cannot make up for.
\<close>

lemma float_rate_threshold:
  fixes T :: rat
  assumes "0 < e" and "e \<le> 2 ^ 46"
    and up: "py_float (py_float (T / 100) * 100) = T"
    and down: "py_float (py_float (T / 100 - 1 / (100 * 2 ^ 46)) * 100) < T"
    and int: "\<exists>t :: int. T = of_int t"
  shows "T \<le> py_float (int_true_div f e * 100) \<longleftrightarrow> T / 100 \<le> of_int f / of_int e"
proof
  assume "T / 100 \<le> of_int f / of_int e"
  then have "py_float (T / 100) \<le> int_true_div f e"
    unfolding int_true_div_def by (rule py_float_mono)
  then have "py_float (T / 100) * 100 \<le> int_true_div f e * 100" by simp
  then have "py_float (py_float (T / 100) * 100) \<le> py_float (int_true_div f e * 100)"
    by (rule py_float_mono)
  then show "T \<le> py_float (int_true_div f e * 100)" by (simp only: up)
next
  assume ge: "T \<le> py_float (int_true_div f e * 100)"
  show "T / 100 \<le> of_int f / of_int e"
  proof (rule ccontr)
    assume "\<not> T / 100 \<le> of_int f / of_int e"
    then have lt: "(of_int f :: rat) / of_int e < T / 100" by simp
    from int obtain t :: int where T: "T = of_int t" by blast
    have epos: "(0::rat) < of_int e" using assms(1) by simp
    have "(of_int f :: rat) * 100 < of_int t * of_int e"
      using lt epos by (simp add: T pos_divide_less_eq)
    then have "(of_int (f * 100) :: rat) < of_int (t * e)" by simp
    then have "f * 100 < t * e" by (simp only: of_int_less_iff)
    then have "f * 100 + 1 \<le> t * e" by simp
    then have "(of_int (f * 100 + 1) :: rat) \<le> of_int (t * e)" by (simp only: of_int_le_iff)
    then have "(of_int f :: rat) * 100 + 1 \<le> T * of_int e" by (simp add: T)
    then have "((of_int f :: rat) * 100 + 1) / (100 * of_int e) \<le> T * of_int e / (100 * of_int e)"
      using epos by (intro divide_right_mono) simp_all
    then have a: "(of_int f :: rat) / of_int e + 1 / (100 * of_int e) \<le> T / 100"
      using epos by (simp add: add_divide_distrib)
    have "(of_int e :: rat) \<le> of_int (2 ^ 46)" using assms(2) by (simp only: of_int_le_iff)
    then have "(100 :: rat) * of_int e \<le> 100 * 2 ^ 46" by simp
    then have "(1 :: rat) / (100 * 2 ^ 46) \<le> 1 / (100 * of_int e)"
      using epos by (intro divide_left_mono) simp_all
    with a have "(of_int f :: rat) / of_int e \<le> T / 100 - 1 / (100 * 2 ^ 46)" by linarith
    then have "int_true_div f e \<le> py_float (T / 100 - 1 / (100 * 2 ^ 46))"
      unfolding int_true_div_def by (rule py_float_mono)
    then have "int_true_div f e * 100 \<le> py_float (T / 100 - 1 / (100 * 2 ^ 46)) * 100" by simp
    then have "py_float (int_true_div f e * 100)
               \<le> py_float (py_float (T / 100 - 1 / (100 * 2 ^ 46)) * 100)"
      by (rule py_float_mono)
    with down ge show False by linarith
  qed
qed

lemma threshold_95:
  "py_float (py_float (95 / 100) * 100) = 95"
  "py_float (py_float (95 / 100 - 1 / (100 * 2 ^ 46)) * 100) < 95"
  by code_simp+

lemma threshold_85:
  "py_float (py_float (85 / 100) * 100) = 85"
  "py_float (py_float (85 / 100 - 1 / (100 * 2 ^ 46)) * 100) < 85"
  by code_simp+

lemma threshold_70:
  "py_float (py_float (70 / 100) * 100) = 70"
  "py_float (py_float (70 / 100 - 1 / (100 * 2 ^ 46)) * 100) < 70"
  by code_simp+

lemma float_rate_class:
  assumes "0 < e" and "e \<le> 2 ^ 46"
  shows "(if 95 \<le> py_float (int_true_div f e * 100) then PASSIVE
          else if 85 \<le> py_float (int_true_div f e * 100) then NORMAL
          else if 70 \<le> py_float (int_true_div f e * 100) then URGENT
          else CRITICAL) = spec_urgency (of_int f / of_int e)"
proof -
  have "\<exists>t :: int. (95 :: rat) = of_int t" "\<exists>t :: int. (85 :: rat) = of_int t"
       "\<exists>t :: int. (70 :: rat) = of_int t"
    by (rule exI [of _ 95], simp, rule exI [of _ 85], simp, rule exI [of _ 70], simp)
  then have
    "95 \<le> py_float (int_true_div f e * 100) \<longleftrightarrow> 95 / 100 \<le> (of_int f / of_int e :: rat)"
    "85 \<le> py_float (int_true_div f e * 100) \<longleftrightarrow> 85 / 100 \<le> (of_int f / of_int e :: rat)"
    "70 \<le> py_float (int_true_div f e * 100) \<longleftrightarrow> 70 / 100 \<le> (of_int f / of_int e :: rat)"
    using float_rate_threshold [OF assms threshold_95] float_rate_threshold [OF assms threshold_85]
      float_rate_threshold [OF assms threshold_70]
    by blast+
  then show ?thesis by (simp add: spec_urgency_def)
qed

lemma int_true_div_no_overflow:
  assumes "0 < e" and "\<bar>f\<bar> \<le> 2 ^ 1023"
  shows "\<not> float_overflow (int_true_div f e)"
proof -
  have e: "(1::rat) \<le> of_int e" using assms(1) by simp
  have "\<bar>of_int f / of_int e :: rat\<bar> = of_int \<bar>f\<bar> / of_int e"
    using assms(1) by simp
  also have "\<dots> \<le> of_int \<bar>f\<bar> / 1"
    using e by (intro divide_left_mono) simp_all
  also have "\<dots> \<le> of_int (2 ^ 1023)"
    using assms(2) by (simp only: of_int_le_iff div_by_1)
  also have "(of_int (2 ^ 1023) :: rat) = 2 powi 1023" by (simp add: power_int_def)
  finally show ?thesis
    unfolding int_true_div_def by (rule float_overflow_bound_rat) simp
qed

text \<open>
  C3. For every \<open>actual_filled\<close> (of magnitude up to \<open>2^1023\<close>, beyond which the
  division can raise \<open>OverflowError\<close>) and every \<open>expected_cumulative\<close> from 0 to
  \<open>2^46\<close>, \<open>calculate_urgency\<close> returns the class of the participation rate
  \<open>actual_filled / expected_cumulative\<close>, taken as 100% when nothing is expected:
  passive from 95%, normal from 85% to below 95%, urgent from 70% to below 85%,
  critical below 70%; it returns it together with the shortfall
  \<open>expected - filled\<close>. The classifier inside \<open>generate\<close> returns the same class
  whenever its expected quantity \<open>(order_size // 7) * (hour + 1)\<close> is positive.
  The rate the code compares is the float \<open>(filled / expected) * 100\<close>; up to
  \<open>2^46\<close> expected shares its rounding never moves it across a threshold.
\<close>

theorem urgency_classification:
  assumes "0 \<le> expected" and "expected \<le> 2 ^ 46" and "\<bar>filled\<bar> \<le> 2 ^ 1023"
  shows "(expected_cumulative schedule hour = expected \<longrightarrow>
            calculate_urgency schedule hour filled =
              Inr (spec_urgency (spec_participation_rate filled expected), expected - filled))
       \<and> (0 < expected \<and> (order_sz div 7) * (gen_hour + 1) = expected \<longrightarrow>
            generate_urgency order_sz gen_hour filled =
              spec_urgency (spec_participation_rate filled expected))"
proof (cases "expected = 0")
  case True
  then show ?thesis
    by (simp add: calculate_urgency_def spec_participation_rate_def spec_urgency_def Let_def)
next
  case False
  then have pos: "0 < expected" using assms(1) by simp
  have cls: "(if 95 \<le> py_float (int_true_div filled expected * 100) then PASSIVE
              else if 85 \<le> py_float (int_true_div filled expected * 100) then NORMAL
              else if 70 \<le> py_float (int_true_div filled expected * 100) then URGENT
              else CRITICAL) = spec_urgency (spec_participation_rate filled expected)"
    using float_rate_class [OF pos assms(2)] False by (simp add: spec_participation_rate_def)
  have ok: "\<not> float_overflow (int_true_div filled expected)"
    by (rule int_true_div_no_overflow [OF pos assms(3)])
  have "calculate_urgency schedule hour filled =
          Inr (spec_urgency (spec_participation_rate filled expected), expected - filled)"
    if "expected_cumulative schedule hour = expected"
    using that pos ok cls by (simp add: calculate_urgency_def Let_def)
  moreover have "generate_urgency order_sz gen_hour filled =
          spec_urgency (spec_participation_rate filled expected)"
    if "(order_sz div 7) * (gen_hour + 1) = expected"
  proof -
    have "generate_urgency order_sz gen_hour filled =
            (if 95 \<le> py_float (int_true_div filled expected * 100) then PASSIVE
             else if 85 \<le> py_float (int_true_div filled expected * 100) then NORMAL
             else if 70 \<le> py_float (int_true_div filled expected * 100) then URGENT
             else CRITICAL)"
      using that pos by (auto simp: generate_urgency_def Let_def)
    then show ?thesis by (simp only: cls)
  qed
  ultimately show ?thesis by blast
qed

theorem urgency_classification_witness:
  "calculate_urgency [150, 100, 80, 70, 80, 100, 420] 6 699 = Inr (CRITICAL, 301)
   \<and> generate_urgency 7000 0 699 = CRITICAL"
  using urgency_classification [of 1000 699 "[150, 100, 80, 70, 80, 100, 420]" 6 7000 0]
  by (simp add: expected_cumulative_def py_slice_to_def spec_participation_rate_def
        spec_urgency_def)

text \<open>
  The two cases the specification singles out: 699 of 1000 is critical (an order
  of 1000 shares at its last hour), and an expected quantity of 0 is passive
  whatever has been filled.
\<close>

lemma calculate_urgency_boundary:
  "calculate_vwap_schedule 1000 7 = Inr [150, 100, 80, 70, 80, 100, 420]
   \<and> expected_cumulative [150, 100, 80, 70, 80, 100, 420] 6 = 1000
   \<and> calculate_urgency [150, 100, 80, 70, 80, 100, 420] 6 699 = Inr (CRITICAL, 301)"
  by code_simp

lemma calculate_urgency_zero_expected:
  "expected_cumulative schedule hour = 0 \<Longrightarrow>
     calculate_urgency schedule hour filled = Inr (PASSIVE, - filled)"
  by (simp add: calculate_urgency_def Let_def)

text \<open>
  With nothing expected the classifier inside \<open>generate\<close> takes the rate as 0, not
  as 100. Its expected quantity is 0 only for an order of fewer than 7 shares.
\<close>

lemma generate_urgency_nothing_expected:
  "(order_sz div 7) * (hour + 1) \<le> 0 \<Longrightarrow> generate_urgency order_sz hour filled = CRITICAL"
  by (simp add: generate_urgency_def Let_def)

text \<open>
  Beyond the bound the float rate can reach a threshold the exact rate is below: for
  an order of \<open>10^15 + 19\<close> shares, of which 950000000000018 are filled at the last
  hour, the rate is below 95% and \<open>(filled / expected) * 100\<close> is the float 95.0.
\<close>

theorem urgency_float_rate_counterexample:
  "(case calculate_vwap_schedule 1000000000000019 7 of
      Inl err \<Rightarrow> False
    | Inr schedule \<Rightarrow>
        expected_cumulative schedule 6 = 1000000000000019
      \<and> calculate_urgency schedule 6 950000000000018 = Inr (PASSIVE, 50000000000001))
   \<and> spec_participation_rate 950000000000018 1000000000000019 < 95 / 100
   \<and> spec_urgency (spec_participation_rate 950000000000018 1000000000000019) = NORMAL"
  by code_simp

section \<open>Venue outcomes\<close>

text \<open>
  C7. The outcome of a venue attempt is a function of the uniform draw \<open>r\<close> (and of
  the second draw \<open>r2\<close> in the reject band): below 0.05 a fade with nothing filled;
  from 0.05 to below 0.15 a partial fill of exactly \<open>q // 2\<close>; from 0.15 to below 0.17
  a reject or a lost connection, decided by \<open>r2 < 0.5\<close>, with nothing filled;
  otherwise a full fill of exactly \<open>q\<close>. Whenever the result is a fade, a reject or
  a lost connection, nothing is filled and the route order is the one built from the
  outcome: nothing filled, everything remaining, price 0, and the result's tag as its
  state. The route order is a value built once and only appended to the log; no later
  step of either generator receives it. The statement holds for the chain in
  \<open>generate\<close> and for the one in \<open>generate_final_vwap\<close> at its default rates.
\<close>

theorem venue_outcome_table:
  "(r < 5/100 \<longrightarrow>
      fst (venue_outcome r r2 q p) = FADE \<and> fst (snd (venue_outcome r r2 q p)) = 0)
 \<and> (5/100 \<le> r \<and> r < 15/100 \<longrightarrow>
      fst (venue_outcome r r2 q p) = PARTIAL \<and> fst (snd (venue_outcome r r2 q p)) = q div 2)
 \<and> (15/100 \<le> r \<and> r < 17/100 \<longrightarrow>
      fst (venue_outcome r r2 q p) = (if r2 < 1/2 then REJECT else NO_CONN)
      \<and> fst (snd (venue_outcome r r2 q p)) = 0)
 \<and> (17/100 \<le> r \<longrightarrow>
      fst (venue_outcome r r2 q p) = FILLED \<and> fst (snd (venue_outcome r r2 q p)) = q)
 \<and> (fst (venue_outcome r r2 q p) \<in> {FADE, REJECT, NO_CONN} \<longrightarrow>
      fst (snd (venue_outcome r r2 q p)) = 0
      \<and> sor_order_of q (venue_outcome r r2 q p)
          = \<lparr>order_level = 3, quantity = q, filled_quantity = 0, remaining_quantity = q,
             average_price = 0, state = VenueResult_value (fst (venue_outcome r r2 q p))\<rparr>)
 \<and> (r < 5/100 \<longrightarrow>
      fst (fv_venue_outcome (5/100) (10/100) r r2 q p) = FADE
      \<and> fst (snd (fv_venue_outcome (5/100) (10/100) r r2 q p)) = 0)
 \<and> (5/100 \<le> r \<and> r < 15/100 \<longrightarrow>
      fst (fv_venue_outcome (5/100) (10/100) r r2 q p) = PARTIAL
      \<and> fst (snd (fv_venue_outcome (5/100) (10/100) r r2 q p)) = q div 2)
 \<and> (15/100 \<le> r \<and> r < 17/100 \<longrightarrow>
      fst (fv_venue_outcome (5/100) (10/100) r r2 q p) = (if r2 < 1/2 then NO_CONN else REJECT)
      \<and> fst (snd (fv_venue_outcome (5/100) (10/100) r r2 q p)) = 0)
 \<and> (17/100 \<le> r \<longrightarrow>
      fst (fv_venue_outcome (5/100) (10/100) r r2 q p) = FILLED
      \<and> fst (snd (fv_venue_outcome (5/100) (10/100) r r2 q p)) = q)
 \<and> (fst (fv_venue_outcome (5/100) (10/100) r r2 q p) \<in> {FADE, REJECT, NO_CONN} \<longrightarrow>
      fst (snd (fv_venue_outcome (5/100) (10/100) r r2 q p)) = 0
      \<and> fv_sor_order q (fv_venue_outcome (5/100) (10/100) r r2 q p)
          = \<lparr>order_level = 3, quantity = q, filled_quantity = 0, remaining_quantity = q,
             average_price = 0,
             state = VenueResult_value (fst (fv_venue_outcome (5/100) (10/100) r r2 q p))\<rparr>)"
  by (auto simp: venue_outcome_def sor_order_of_def fv_venue_outcome_def fv_sor_order_def)

theorem venue_outcome_table_witness:
  "venue_outcome (1/100) (1/4) 100 650 = (FADE, 0, 0)
 \<and> venue_outcome (1/10) (1/4) 100 650 = (PARTIAL, 50, 650)
 \<and> venue_outcome (16/100) (1/4) 100 650 = (REJECT, 0, 0)
 \<and> venue_outcome (16/100) (3/4) 100 650 = (NO_CONN, 0, 0)
 \<and> venue_outcome (1/2) (1/4) 100 650 = (FILLED, 100, 650)
 \<and> sor_order_of 100 (venue_outcome (16/100) (3/4) 100 650)
      = \<lparr>order_level = 3, quantity = 100, filled_quantity = 0, remaining_quantity = 100,
         average_price = 0, state = ''NO_CONNECTION''\<rparr>
 \<and> fv_venue_outcome (5/100) (10/100) (1/100) (1/4) 100 650 = (FADE, 0, 0)
 \<and> fv_venue_outcome (5/100) (10/100) (1/10) (1/4) 100 650 = (PARTIAL, 50, 650)
 \<and> fv_venue_outcome (5/100) (10/100) (16/100) (1/4) 100 650 = (NO_CONN, 0, 0)
 \<and> fv_venue_outcome (5/100) (10/100) (1/2) (1/4) 100 650 = (FILLED, 100, 650)
 \<and> fv_sor_order 100 (fv_venue_outcome (5/100) (10/100) (1/100) (1/4) 100 650)
      = \<lparr>order_level = 3, quantity = 100, filled_quantity = 0, remaining_quantity = 100,
         average_price = 0, state = ''FADE''\<rparr>"
  using venue_outcome_table [of "1/100" "1/4" 100 650]
        venue_outcome_table [of "1/10" "1/4" 100 650]
        venue_outcome_table [of "16/100" "1/4" 100 650]
        venue_outcome_table [of "16/100" "3/4" 100 650]
        venue_outcome_table [of "1/2" "1/4" 100 650]
  by (simp add: prod_eq_iff venue_outcome_def fv_venue_outcome_def)

section \<open>Fill propagation\<close>

subsection \<open>Slice level\<close>

text \<open>
  What a propagated fill does to the slice's quantities: \<open>filled_quantity\<close> grows
  by the fill and \<open>remaining_quantity\<close> is the rest of \<open>quantity\<close>.
\<close>

lemma propagate_slice_quantities:
  assumes "delta \<noteq> 0"
  shows "filled_quantity (snd (propagate_fill_up_chain self delta v slice_order u))
           = filled_quantity slice_order + delta"
    and "remaining_quantity (snd (propagate_fill_up_chain self delta v slice_order u))
           = quantity slice_order - (filled_quantity slice_order + delta)"
    and "quantity (snd (propagate_fill_up_chain self delta v slice_order u)) = quantity slice_order"
  using assms by (simp_all add: propagate_fill_up_chain_def Let_def)

text \<open>The price the slice is left with is the price of the fill just propagated.\<close>

lemma propagate_slice_average:
  assumes "delta \<noteq> 0" and "0 < filled_quantity slice_order + delta"
  shows "average_price (snd (propagate_fill_up_chain self delta (of_int delta * px) slice_order u)) = px"
  using assms by (simp add: propagate_fill_up_chain_def Let_def)

text \<open>
  In \<open>generate_realistic_flow.py\<close> the slice is updated from the totals of all
  its routes, so its price is the mean over all its fills.
\<close>

lemma rf_update_slice_average:
  assumes "0 < fills_quantity fills"
  shows "average_price (rf_update_slice slice_order qty (fills_quantity fills) (fills_value fills))
           = vwap fills"
  using assms by (simp add: rf_update_slice_def vwap_def)

text \<open>
  C4. After every fill propagated to a slice, for every sequence of fills on the same
  slice, the slice's average price is the quantity-weighted mean of all fills under
  that slice. In the run \<open>two_fill_draws\<close> of \<open>generate\<close> (700 shares, slices of 100,
  full detail) the first slice receives 16 shares at 10 and then 42 shares at 20
  (snapshots 4 and 8). The slice snapshot after the second fill (snapshot 9) has 58
  filled and 42 remaining, but average price 20, the price of the last
  fill; the mean of the two fills is \<open>500/29\<close>, which is what the algo parent shows
  for the same two fills (snapshot 10).
\<close>

theorem slice_average_is_last_fill:
  "case generate two_fill_draws 700 100 ''full'' of
     Inl e \<Rightarrow> False
   | Inr st \<Rightarrow>
       snapshots st ! 4 =
         \<lparr>snap_order = \<lparr>order_level = 3, quantity = 33, filled_quantity = 16,
            remaining_quantity = 17, average_price = 10, state = ''PARTIAL''\<rparr>,
          event_type = ''VENUE_PARTIAL''\<rparr>
     \<and> snapshots st ! 8 =
         \<lparr>snap_order = \<lparr>order_level = 3, quantity = 42, filled_quantity = 42,
            remaining_quantity = 0, average_price = 20, state = ''FILLED''\<rparr>,
          event_type = ''VENUE_FILLED''\<rparr>
     \<and> snapshots st ! 9 =
         \<lparr>snap_order = \<lparr>order_level = 2, quantity = 100, filled_quantity = 58,
            remaining_quantity = 42, average_price = 20, state = ''PARTIAL''\<rparr>,
          event_type = ''SLICE_UPDATE''\<rparr>
     \<and> snapshots st ! 10 =
         \<lparr>snap_order = \<lparr>order_level = 1, quantity = 700, filled_quantity = 58,
            remaining_quantity = 642, average_price = 500/29, state = ''WORKING''\<rparr>,
          event_type = ''ALGO_UPDATE''\<rparr>
     \<and> vwap [\<lparr>fquantity = 16, fprice = 10\<rparr>, \<lparr>fquantity = 42, fprice = 20\<rparr>] = 500/29"
  by code_simp

subsection \<open>Client level\<close>

text \<open>
  C5. After every fill cascade the client order's \<open>filled_quantity\<close>,
  \<open>remaining_quantity\<close>, \<open>average_price\<close> and \<open>state\<close> are those of the algo
  parent: in \<open>propagate_fill_up_chain\<close> (a cascade happens for a non-zero fill), in
  \<open>update_parent_orders\<close>, and in \<open>_process_fills\<close> (a cascade happens for a
  non-empty fill list and a known parent). The client's price is the parent's
  stored price in all three.
\<close>

theorem client_mirrors_parent:
  assumes "slice_filled \<noteq> 0" and "fills \<noteq> []"
  shows "mirrors
           (client_order (fst (propagate_fill_up_chain self slice_filled slice_value slice_order urgency)))
           (algo_parent (fst (propagate_fill_up_chain self slice_filled slice_value slice_order urgency)))
       \<and> (case update_parent_orders qty total_fill total_val algo client snaps of
             (algo', client', snaps') \<Rightarrow> mirrors client' algo')
       \<and> (case process_fills child fills (Some parent_data) tick_db of
             (child', Some parent_data', tick_db') \<Rightarrow>
                mirrors (pd_client_order parent_data') (pd_order parent_data')
           | (child', None, tick_db') \<Rightarrow> False)"
  using assms
  by (simp add: mirrors_def propagate_fill_up_chain_def add_snapshot_def update_parent_orders_def
        process_fills_def Let_def)

theorem client_mirrors_parent_witness:
  "mirrors
     (client_order (fst (propagate_fill_up_chain (initial_state 700 100 ''full'') 16 160
                           (new_order 2 100 ''PENDING'') CRITICAL)))
     (algo_parent (fst (propagate_fill_up_chain (initial_state 700 100 ''full'') 16 160
                           (new_order 2 100 ''PENDING'') CRITICAL)))
 \<and> (case update_parent_orders 700 16 160 (new_order 1 700 ''WORKING'')
            (new_order 0 700 ''ACCEPTED'') [] of
       (algo', client', snaps') \<Rightarrow> mirrors client' algo')
 \<and> (case process_fills (new_order 2 100 ''WORKING'') [\<lparr>fquantity = 100, fprice = 650\<rparr>]
            (Some (receive_client_order (new_order 0 700 ''PENDING''))) [] of
       (child', Some parent_data', tick_db') \<Rightarrow>
          mirrors (pd_client_order parent_data') (pd_order parent_data')
     | (child', None, tick_db') \<Rightarrow> False)"
  using client_mirrors_parent
    [of 16 "[\<lparr>fquantity = 100, fprice = 650\<rparr>]" "initial_state 700 100 ''full''" 160
        "new_order 2 100 ''PENDING''" CRITICAL 700 16 160 "new_order 1 700 ''WORKING''"
        "new_order 0 700 ''ACCEPTED''" "[]" "new_order 2 100 ''WORKING''"
        "receive_client_order (new_order 0 700 ''PENDING'')" "[]"]
  by simp



section \<open>Conservation of quantity\<close>

text \<open>
  The cascades keep \<open>filled_quantity + remaining_quantity = quantity\<close> on the
  slice, the algo parent and the client, and the route orders of \<open>generate\<close> and
  of the equal-division router are built conserved.
\<close>

lemma propagate_conserved:
  assumes "delta \<noteq> 0" and "quantity (algo_parent self) = order_size self"
      and "quantity (client_order self) = order_size self"
  shows "conserved (snd (propagate_fill_up_chain self delta v slice_order u))"
    and "conserved (algo_parent (fst (propagate_fill_up_chain self delta v slice_order u)))"
    and "conserved (client_order (fst (propagate_fill_up_chain self delta v slice_order u)))"
  using assms by (simp_all add: propagate_fill_up_chain_def add_snapshot_def conserved_def Let_def)

lemma process_fills_conserved:
  assumes "fills \<noteq> []" and "quantity (pd_client_order pd) = quantity (pd_order pd)"
  shows "case process_fills child fills (Some pd) tick_db of
           (child', Some pd', tick_db') \<Rightarrow>
              conserved child' \<and> conserved (pd_order pd') \<and> conserved (pd_client_order pd')
         | (child', None, tick_db') \<Rightarrow> False"
  using assms by (simp add: process_fills_def conserved_def Let_def)

lemma sor_order_of_conserved: "conserved (sor_order_of q outcome)"
  by (simp add: sor_order_of_def conserved_def split: prod.splits)

lemma route_to_venue_conserved: "conserved (fst (route_to_venue d r k price idx))"
  by (simp add: route_to_venue_def receive_order_def new_order_def conserved_def Let_def)

text \<open>
  C1. For every order node at every level, after every mutation and in every recorded
  snapshot, \<open>filled_quantity + remaining_quantity = quantity\<close>. The enhanced
  router assigns \<open>filled_quantity\<close> on a fill and leaves \<open>remaining_quantity\<close>
  at the full quantity: for a child order of 5000 shares routed through
  \<open>example_env\<close>, the dark pool fills all 5000 and the recorded route snapshot has
  5000 filled and 5000 remaining of 5000.
\<close>

theorem route_snapshot_not_conserved:
  "case route_passes example_env 2 0 (sor_initial (new_order 2 5000 ''PENDING'')) of
     Inl e \<Rightarrow> False
   | Inr (passes, st) \<Rightarrow>
       sor_snapshots st =
         [\<lparr>snap_order = \<lparr>order_level = 3, quantity = 5000, filled_quantity = 5000,
             remaining_quantity = 5000, average_price = 65001/100, state = ''FILLED''\<rparr>,
           event_type = ''SOR_FILLED''\<rparr>]
     \<and> \<not> conserved (snap_order (sor_snapshots st ! 0))"
  by code_simp

section \<open>Bounded retry of the router\<close>

lemma execute_order_le:
  "0 < req \<Longrightarrow> fst (snd (execute_order fade_level req instruction vd)) \<le> req"
  by (simp add: execute_order_def Let_def)

lemma records_filled_append:
  "records_filled (xs @ ys) = records_filled xs + records_filled ys"
  by (simp add: records_filled_def)

lemma records_replay_append:
  "records_replay env r (xs @ ys)
     \<longleftrightarrow> records_replay env r xs \<and> records_replay env (r - records_filled xs) ys"
  by (induction xs arbitrary: r) (auto simp: records_filled_def algebra_simps)

lemma set_select_venues: "set (select_venues liquidity) \<subseteq> fst ` set liquidity"
proof -
  have "set (take 3 (sort_key (\<lambda>v. - snd v) liquidity)) \<subseteq> set liquidity"
    using set_take_subset [of 3 "sort_key (\<lambda>v. - snd v) liquidity"] by simp
  then show ?thesis by (auto simp: select_venues_def)
qed

text \<open>
  One venue of a pass: an order for \<open>min(remaining, liquidity)\<close> is sent when that
  is positive, its record is appended, and a positive fill moves from the remaining
  quantity to the total.
\<close>

lemma venue_attempt_trace:
  assumes tr: "sor_trace env q p st"
      and dom: "venue_name \<in> dom (venues env)"
      and sel: "venue_name \<in> set (select_venues (tick_liquidity env p))"
      and p: "0 \<le> p"
  shows "\<exists>st' new.
           venue_attempt env p (if p = 0 then EOE else IOC) (tick_liquidity env p) venue_name st
             = Inr st'
         \<and> sor_trace env q p st'
         \<and> execution_records st' = execution_records st @ new
         \<and> (\<forall>rec \<in> set new. er_retry_count rec = p)
         \<and> (0 < min (remaining_qty st) (liquidity_get (tick_liquidity env p) venue_name) \<longrightarrow>
               (\<exists>rec \<in> set new. er_venue rec = venue_name))"
proof -
  define liquidity where "liquidity = tick_liquidity env p"
  define instruction where "instruction = (if p = 0 then EOE else IOC)"
  define slice_qty where "slice_qty = min (remaining_qty st) (liquidity_get liquidity venue_name)"
  from dom obtain fade_level where fl: "venues env venue_name = Some fade_level" by auto
  have inv: "sor_inv q st" and tot: "sor_total_filled st = records_filled (execution_records st)"
    and rep: "records_replay env q (execution_records st)"
    and old: "\<forall>rec \<in> set (execution_records st). er_retry_count rec \<le> p"
    using tr by (simp_all add: sor_trace_def)
  show ?thesis
  proof (cases "slice_qty \<le> 0")
    case True
    then have "venue_attempt env p instruction liquidity venue_name st = Inr st"
      by (simp add: venue_attempt_def slice_qty_def Let_def)
    moreover have "\<not> 0 < min (remaining_qty st) (liquidity_get liquidity venue_name)"
      using True unfolding slice_qty_def by linarith
    ultimately show ?thesis
      using tr
      by (intro exI [of _ st] exI [of _ "[]"])
         (simp add: instruction_def liquidity_def)
  next
    case False
    define outcome where
      "outcome = execute_order fade_level slice_qty instruction (venue_draws env p venue_name)"
    define filled_qty where "filled_qty = fst (snd outcome)"
    define rec where
      "rec = \<lparr>er_venue = venue_name, er_instruction = instruction,
              er_requested_qty = slice_qty, er_filled_qty = filled_qty,
              er_response = fst outcome, er_retry_count = p\<rparr>"
    have le: "filled_qty \<le> slice_qty"
      unfolding filled_qty_def outcome_def using False by (intro execute_order_le) simp
    have sl: "slice_qty \<le> remaining_qty st" by (simp add: slice_qty_def)
    obtain st' where run: "venue_attempt env p instruction liquidity venue_name st = Inr st'"
      and recs: "execution_records st' = execution_records st @ [rec]"
      and rem: "remaining_qty st' = remaining_qty st - counted_fill rec"
      and tf: "sor_total_filled st' = sor_total_filled st + counted_fill rec"
      using False fl
      by (auto simp: venue_attempt_def slice_qty_def [symmetric] Let_def new_order_def
            outcome_def [symmetric] filled_qty_def [symmetric] rec_def counted_fill_def max_def)
    have cf: "0 \<le> counted_fill rec" "counted_fill rec \<le> remaining_qty st"
      using le sl False by (simp_all add: counted_fill_def rec_def)
    have inv': "sor_inv q st'"
      using inv cf by (simp add: sor_inv_def rem tf)
    have tot': "sor_total_filled st' = records_filled (execution_records st')"
      by (simp add: tf tot recs records_filled_append records_filled_def)
    have res: "q - records_filled (execution_records st) = remaining_qty st"
      using inv tot by (simp add: sor_inv_def)
    have sent: "record_sent env (remaining_qty st) rec"
      using sel p False fl
      by (simp add: record_sent_def rec_def Let_def liquidity_def [symmetric]
            slice_qty_def [symmetric] instruction_def [symmetric] outcome_def [symmetric]
            filled_qty_def)
    have rep': "records_replay env q (execution_records st')"
      using rep sent by (simp add: recs records_replay_append res)
    have old': "\<forall>rec \<in> set (execution_records st'). er_retry_count rec \<le> p"
      using old by (auto simp: recs rec_def)
    have "sor_trace env q p st'"
      using inv' tot' rep' old' by (simp add: sor_trace_def)
    moreover have "\<forall>r \<in> set [rec]. er_retry_count r = p" by (simp add: rec_def)
    moreover have "\<exists>r \<in> set [rec]. er_venue r = venue_name" by (simp add: rec_def)
    ultimately show ?thesis
      using run recs
      by (intro exI [of _ st'] exI [of _ "[rec]"])
         (simp add: instruction_def liquidity_def)
  qed
qed

text \<open>The venue loop of one pass, from any position in the list of selected venues.\<close>

lemma venue_loop_trace:
  assumes "sor_trace env q p st"
      and "set names \<subseteq> dom (venues env)"
      and "set names \<subseteq> set (select_venues (tick_liquidity env p))"
      and "0 \<le> p"
  shows "\<exists>st' new.
           venue_loop env p (if p = 0 then EOE else IOC) (tick_liquidity env p) names st = Inr st'
         \<and> sor_trace env q p st'
         \<and> execution_records st' = execution_records st @ new
         \<and> (\<forall>rec \<in> set new. er_retry_count rec = p)
         \<and> (names \<noteq> [] \<and> 0 < remaining_qty st
              \<and> 0 < liquidity_get (tick_liquidity env p) (hd names) \<longrightarrow>
               (\<exists>rec \<in> set new. er_venue rec = hd names))
         \<and> (\<forall>v \<in> set names.
               (\<exists>rec \<in> set new. er_venue rec = v)
             \<or> liquidity_get (tick_liquidity env p) v \<le> 0
             \<or> remaining_qty st' \<le> 0)"
  using assms
proof (induction names arbitrary: st)
  case Nil
  then show ?case by (intro exI [of _ st] exI [of _ "[]"]) simp
next
  case (Cons venue_name rest)
  show ?case
  proof (cases "remaining_qty st \<le> 0")
    case True
    then show ?thesis using Cons.prems(1) by (intro exI [of _ st] exI [of _ "[]"]) simp
  next
    case False
    have d: "venue_name \<in> dom (venues env)"
      and s: "venue_name \<in> set (select_venues (tick_liquidity env p))"
      using Cons.prems(2,3) by simp_all
    from venue_attempt_trace [OF Cons.prems(1) d s Cons.prems(4)]
    obtain st1 new1 where a:
      "venue_attempt env p (if p = 0 then EOE else IOC) (tick_liquidity env p) venue_name st = Inr st1"
      "sor_trace env q p st1"
      "execution_records st1 = execution_records st @ new1"
      "\<forall>rec \<in> set new1. er_retry_count rec = p"
      "0 < min (remaining_qty st) (liquidity_get (tick_liquidity env p) venue_name) \<longrightarrow>
         (\<exists>rec \<in> set new1. er_venue rec = venue_name)"
      by blast
    have "set rest \<subseteq> dom (venues env)"
         "set rest \<subseteq> set (select_venues (tick_liquidity env p))"
      using Cons.prems(2,3) by simp_all
    from Cons.IH [OF a(2) this Cons.prems(4)]
    obtain st' new2 where b:
      "venue_loop env p (if p = 0 then EOE else IOC) (tick_liquidity env p) rest st1 = Inr st'"
      "sor_trace env q p st'"
      "execution_records st' = execution_records st1 @ new2"
      "\<forall>rec \<in> set new2. er_retry_count rec = p"
      "\<forall>v \<in> set rest.
          (\<exists>rec \<in> set new2. er_venue rec = v)
        \<or> liquidity_get (tick_liquidity env p) v \<le> 0
        \<or> remaining_qty st' \<le> 0"
      by blast
    have run: "venue_loop env p (if p = 0 then EOE else IOC) (tick_liquidity env p)
                 (venue_name # rest) st = Inr st'"
      using False a(1) b(1) by simp
    have first: "\<exists>rec \<in> set (new1 @ new2). er_venue rec = venue_name"
      if "0 < liquidity_get (tick_liquidity env p) venue_name"
      using that False a(5) by auto
    have every: "(\<exists>rec \<in> set (new1 @ new2). er_venue rec = v)
               \<or> liquidity_get (tick_liquidity env p) v \<le> 0
               \<or> remaining_qty st' \<le> 0"
      if "v \<in> set (venue_name # rest)" for v
    proof (cases "v = venue_name")
      case True
      then show ?thesis using first by (cases "0 < liquidity_get (tick_liquidity env p) v") auto
    next
      case False
      then have "v \<in> set rest" using that by simp
      then show ?thesis using b(5) by auto
    qed
    show ?thesis
      using run b(2) a(3,4) b(3,4) first every
      by (intro exI [of _ st'] exI [of _ "new1 @ new2"]) auto
  qed
qed

lemma sor_trace_mono: "sor_trace env q p st \<Longrightarrow> p \<le> p' \<Longrightarrow> sor_trace env q p' st"
  by (fastforce simp: sor_trace_def)

lemma routing_pass_trace:
  assumes "sor_trace env q p st"
      and "\<forall>p. fst ` set (tick_liquidity env p) \<subseteq> dom (venues env)"
      and "0 \<le> p"
  shows "\<exists>st' new.
           routing_pass env p st = Inr st'
         \<and> sor_trace env q p st'
         \<and> execution_records st' = execution_records st @ new
         \<and> (\<forall>rec \<in> set new. er_retry_count rec = p)
         \<and> (0 < remaining_qty st \<longrightarrow> pass_sent env p new)
         \<and> (\<forall>v \<in> set (select_venues (tick_liquidity env p)).
               (\<exists>rec \<in> set new. er_venue rec = v)
             \<or> liquidity_get (tick_liquidity env p) v \<le> 0
             \<or> remaining_qty st' \<le> 0)"
proof -
  have 1: "sor_trace env q p (st\<lparr>round_fills := 0\<rparr>)"
    using assms(1) by (simp add: sor_trace_def sor_inv_def)
  have 2: "set (select_venues (tick_liquidity env p)) \<subseteq> dom (venues env)"
    using set_select_venues assms(2) by blast
  from venue_loop_trace [OF 1 2 subset_refl assms(3)]
  obtain st' new where r:
    "venue_loop env p (if p = 0 then EOE else IOC) (tick_liquidity env p)
       (select_venues (tick_liquidity env p)) (st\<lparr>round_fills := 0\<rparr>) = Inr st'"
    "sor_trace env q p st'"
    "execution_records st' = execution_records (st\<lparr>round_fills := 0\<rparr>) @ new"
    "\<forall>rec \<in> set new. er_retry_count rec = p"
    "select_venues (tick_liquidity env p) \<noteq> [] \<and> 0 < remaining_qty (st\<lparr>round_fills := 0\<rparr>)
       \<and> 0 < liquidity_get (tick_liquidity env p) (hd (select_venues (tick_liquidity env p))) \<longrightarrow>
         (\<exists>rec \<in> set new. er_venue rec = hd (select_venues (tick_liquidity env p)))"
    "\<forall>v \<in> set (select_venues (tick_liquidity env p)).
        (\<exists>rec \<in> set new. er_venue rec = v)
      \<or> liquidity_get (tick_liquidity env p) v \<le> 0
      \<or> remaining_qty st' \<le> 0"
    by blast
  have "pass_sent env p new" if "0 < remaining_qty st"
    using that r(4,5) by (auto simp: pass_sent_def Let_def)
  then show ?thesis
    using r(1,2,3,4,6)
    by (intro exI [of _ st'] exI [of _ new]) (simp add: routing_pass_def Let_def)
qed

lemma pass_sent_append:
  "pass_sent env p xs \<or> pass_sent env p ys \<Longrightarrow> pass_sent env p (xs @ ys)"
  by (auto simp: pass_sent_def Let_def)

lemma pass_complete_later:
  assumes "pass_complete env q p xs" and "\<forall>rec \<in> set new. p + 1 \<le> er_retry_count rec"
  shows "pass_complete env q p (xs @ new)"
proof -
  have "filter (\<lambda>rec. er_retry_count rec < p + 1) new = []"
    using assms(2) by (auto simp: filter_empty_conv)
  then have "filled_before (p + 1) (xs @ new) = filled_before (p + 1) xs"
    by (simp add: filled_before_def)
  then show ?thesis using assms(1) by (auto simp: pass_complete_def Let_def)
qed

lemma filled_before_later:
  assumes "\<forall>rec \<in> set new. p \<le> er_retry_count rec"
  shows "filled_before p (xs @ new) = filled_before p xs"
proof -
  have "filter (\<lambda>rec. er_retry_count rec < p) new = []"
    using assms by (auto simp: filter_empty_conv)
  then show ?thesis by (simp add: filled_before_def)
qed

lemma filled_before_all:
  assumes "\<forall>rec \<in> set xs. er_retry_count rec < p"
  shows "filled_before p xs = records_filled xs"
proof -
  have "filter (\<lambda>rec. er_retry_count rec < p) xs = xs"
    using assms by (simp add: filter_id_conv)
  then show ?thesis by (simp add: filled_before_def)
qed

text \<open>
  The \<open>while\<close> loop. A pass is made only while something remains, it sends its
  orders, and the loop stops with nothing remaining or with the bound exhausted.
\<close>

lemma route_passes_trace:
  assumes "sor_trace env q (retry_count - 1) st"
      and "\<forall>p. fst ` set (tick_liquidity env p) \<subseteq> dom (venues env)"
      and "0 \<le> retry_count" and "retry_count \<le> max_retries + 1"
      and "\<forall>p. 0 \<le> p \<and> p < retry_count \<longrightarrow>
             filled_before p (execution_records st) < q
           \<and> pass_sent env p (execution_records st)
           \<and> pass_complete env q p (execution_records st)"
  shows "\<exists>passes st'. route_passes env max_retries retry_count st = Inr (passes, st')
             \<and> sor_trace env q (passes - 1) st'
             \<and> retry_count \<le> passes \<and> passes \<le> max_retries + 1
             \<and> (0 < remaining_qty st' \<longrightarrow> passes = max_retries + 1)
             \<and> (0 < remaining_qty st \<and> retry_count \<le> max_retries \<longrightarrow> retry_count < passes)
             \<and> (\<forall>p. 0 \<le> p \<and> p < passes \<longrightarrow>
                   filled_before p (execution_records st') < q
                 \<and> pass_sent env p (execution_records st')
                 \<and> pass_complete env q p (execution_records st'))"
  using assms
proof (induction env max_retries retry_count st rule: route_passes.induct)
  case (1 env max_retries retry_count st)
  show ?case
  proof (cases "remaining_qty st > 0 \<and> retry_count \<le> max_retries")
    case False
    then have "route_passes env max_retries retry_count st = Inr (retry_count, st)"
      by (subst route_passes.simps) auto
    then show ?thesis using False "1.prems"
      by (intro exI [of _ retry_count] exI [of _ st]) auto
  next
    case True
    have tr: "sor_trace env q retry_count st"
      using "1.prems"(1) by (rule sor_trace_mono) simp
    from routing_pass_trace [OF tr "1.prems"(2,3)] True
    obtain st1 new where st1: "routing_pass env retry_count st = Inr st1"
      "sor_trace env q retry_count st1"
      "execution_records st1 = execution_records st @ new"
      "\<forall>rec \<in> set new. er_retry_count rec = retry_count"
      "pass_sent env retry_count new"
      "\<forall>v \<in> set (select_venues (tick_liquidity env retry_count)).
          (\<exists>rec \<in> set new. er_venue rec = v)
        \<or> liquidity_get (tick_liquidity env retry_count) v \<le> 0
        \<or> remaining_qty st1 \<le> 0"
      by blast
    have before: "\<forall>rec \<in> set (execution_records st). er_retry_count rec < retry_count"
      using "1.prems"(1) by (fastforce simp: sor_trace_def)
    have now: "filled_before retry_count (execution_records st1) < q"
    proof -
      have "filled_before retry_count (execution_records st1)
              = filled_before retry_count (execution_records st)"
        unfolding st1(3) using st1(4) by (intro filled_before_later) simp
      also have "\<dots> = records_filled (execution_records st)"
        by (rule filled_before_all [OF before])
      also have "\<dots> < q"
        using tr True by (simp add: sor_trace_def sor_inv_def)
      finally show ?thesis .
    qed
    have complete: "pass_complete env q retry_count (execution_records st1)"
    proof -
      have all: "\<forall>rec \<in> set (execution_records st1). er_retry_count rec < retry_count + 1"
        using st1(2) by (fastforce simp: sor_trace_def)
      have "q \<le> filled_before (retry_count + 1) (execution_records st1)"
        if "remaining_qty st1 \<le> 0"
        using that st1(2) filled_before_all [OF all] by (simp add: sor_trace_def sor_inv_def)
      then show ?thesis
        using st1(4,6) by (fastforce simp: pass_complete_def Let_def st1(3))
    qed
    have sent: "\<forall>p. 0 \<le> p \<and> p < retry_count + 1 \<longrightarrow>
                  filled_before p (execution_records st1) < q
                \<and> pass_sent env p (execution_records st1)
                \<and> pass_complete env q p (execution_records st1)"
    proof (intro allI impI)
      fix p assume p: "0 \<le> p \<and> p < retry_count + 1"
      show "filled_before p (execution_records st1) < q
            \<and> pass_sent env p (execution_records st1)
            \<and> pass_complete env q p (execution_records st1)"
      proof (cases "p = retry_count")
        case True
        then show ?thesis using now st1(5) complete by (simp add: st1(3) pass_sent_append)
      next
        case False
        then have lt: "0 \<le> p \<and> p < retry_count" using p by simp
        have "filled_before p (execution_records st1) = filled_before p (execution_records st)"
          unfolding st1(3) using st1(4) lt by (intro filled_before_later) simp
        moreover have "pass_complete env q p (execution_records st1)"
          unfolding st1(3) using "1.prems"(5) lt st1(4) by (intro pass_complete_later) auto
        ultimately show ?thesis
          using "1.prems"(5) lt by (simp add: st1(3) pass_sent_append)
      qed
    qed
    have tr1: "sor_trace env q (retry_count + 1 - 1) st1" using st1(2) by simp
    have "\<exists>passes st'. route_passes env max_retries (retry_count + 1) st1 = Inr (passes, st')
             \<and> sor_trace env q (passes - 1) st'
             \<and> retry_count + 1 \<le> passes \<and> passes \<le> max_retries + 1
             \<and> (0 < remaining_qty st' \<longrightarrow> passes = max_retries + 1)
             \<and> (0 < remaining_qty st1 \<and> retry_count + 1 \<le> max_retries \<longrightarrow> retry_count + 1 < passes)
             \<and> (\<forall>p. 0 \<le> p \<and> p < passes \<longrightarrow>
                   filled_before p (execution_records st') < q
                 \<and> pass_sent env p (execution_records st')
                 \<and> pass_complete env q p (execution_records st'))"
      using True "1.prems"(2,3) sent
      by (intro "1.IH" [OF True st1(1) tr1]) auto
    then obtain passes st' where res:
      "route_passes env max_retries (retry_count + 1) st1 = Inr (passes, st')"
      "sor_trace env q (passes - 1) st'"
      "retry_count + 1 \<le> passes" "passes \<le> max_retries + 1"
      "0 < remaining_qty st' \<longrightarrow> passes = max_retries + 1"
      "\<forall>p. 0 \<le> p \<and> p < passes \<longrightarrow>
          filled_before p (execution_records st') < q \<and> pass_sent env p (execution_records st')
        \<and> pass_complete env q p (execution_records st')"
      by blast
    have "route_passes env max_retries retry_count st = Inr (passes, st')"
      using True st1(1) res(1) by (subst route_passes.simps) simp
    with res show ?thesis by (intro exI [of _ passes] exI [of _ st']) simp
  qed
qed

lemma records_replay_member:
  assumes "records_replay env r recs" and "rec \<in> set recs"
  shows "\<exists>r'. record_sent env r' rec"
  using assms by (induction recs arbitrary: r) auto

text \<open>
  C8. For every child order of non-negative quantity (and a non-negative retry bound,
  every venue of the market's liquidity table being a venue of the router),
  \<open>route_order\<close> returns after at most \<open>1 + max_retries\<close> passes, and after at
  least one when the quantity is positive. A pass is made only while a residual
  remains; it sends an order to the venue with the most liquidity whenever that
  venue shows any, and to every other selected venue that shows liquidity unless
  the residual is used up in that pass. Every execution record is an order that was sent in one of these
  passes to a selected venue: for the smaller of the residual at that moment and the
  venue's liquidity, with \<open>EOE\<close> on the first pass and \<open>IOC\<close> on every retry, and
  it reports the answer \<open>execute_order\<close> gave to that instruction. The returned
  \<open>total_filled\<close> is the sum of the fills of the records; it lies between 0 and
  the requested quantity, and the quantity still remaining when the loop ends is the
  requested quantity minus the returned \<open>total_filled\<close>: when it is positive the
  bound was exhausted, and the caller sees a \<open>total_filled\<close> below the quantity it
  asked for.
\<close>

theorem route_order_bounded:
  assumes "0 \<le> quantity algo_child" and "0 \<le> max_retries"
      and "\<forall>p. fst ` set (tick_liquidity env p) \<subseteq> dom (venues env)"
  shows "\<exists>passes st.
           route_passes env max_retries 0 (sor_initial algo_child) = Inr (passes, st)
         \<and> route_order env max_retries algo_child = Inr (execution_records st, sor_total_filled st)
         \<and> 0 \<le> passes \<and> passes \<le> 1 + max_retries
         \<and> (0 < quantity algo_child \<longrightarrow> 1 \<le> passes)
         \<and> (\<forall>p. 0 \<le> p \<and> p < passes \<longrightarrow>
               filled_before p (execution_records st) < quantity algo_child
             \<and> pass_sent env p (execution_records st)
             \<and> pass_complete env (quantity algo_child) p (execution_records st))
         \<and> (\<forall>rec \<in> set (execution_records st).
               0 \<le> er_retry_count rec \<and> er_retry_count rec < passes
             \<and> er_instruction rec = (if er_retry_count rec = 0 then EOE else IOC))
         \<and> records_replay env (quantity algo_child) (execution_records st)
         \<and> sor_total_filled st = records_filled (execution_records st)
         \<and> 0 \<le> sor_total_filled st \<and> sor_total_filled st \<le> quantity algo_child
         \<and> remaining_qty st = quantity algo_child - sor_total_filled st
         \<and> (0 < remaining_qty st \<longrightarrow>
               passes = 1 + max_retries \<and> sor_total_filled st < quantity algo_child)"
proof -
  define q where "q = quantity algo_child"
  have init: "sor_trace env q (0 - 1) (sor_initial algo_child)"
    using assms(1) by (simp add: sor_trace_def sor_inv_def sor_initial_def records_filled_def q_def)
  have none: "\<forall>p. 0 \<le> p \<and> p < 0 \<longrightarrow>
                filled_before p (execution_records (sor_initial algo_child)) < q
              \<and> pass_sent env p (execution_records (sor_initial algo_child))
              \<and> pass_complete env q p (execution_records (sor_initial algo_child))"
    by auto
  have "\<exists>passes st. route_passes env max_retries 0 (sor_initial algo_child) = Inr (passes, st)
             \<and> sor_trace env q (passes - 1) st
             \<and> 0 \<le> passes \<and> passes \<le> max_retries + 1
             \<and> (0 < remaining_qty st \<longrightarrow> passes = max_retries + 1)
             \<and> (0 < remaining_qty (sor_initial algo_child) \<and> 0 \<le> max_retries \<longrightarrow> 0 < passes)
             \<and> (\<forall>p. 0 \<le> p \<and> p < passes \<longrightarrow>
                   filled_before p (execution_records st) < q
                 \<and> pass_sent env p (execution_records st)
                 \<and> pass_complete env q p (execution_records st))"
    using assms(2) by (intro route_passes_trace [OF init assms(3) _ _ none]) simp_all
  then obtain passes st where r:
    "route_passes env max_retries 0 (sor_initial algo_child) = Inr (passes, st)"
    "sor_trace env q (passes - 1) st" "0 \<le> passes" "passes \<le> max_retries + 1"
    "0 < remaining_qty st \<longrightarrow> passes = max_retries + 1"
    "0 < remaining_qty (sor_initial algo_child) \<and> 0 \<le> max_retries \<longrightarrow> 0 < passes"
    "\<forall>p. 0 \<le> p \<and> p < passes \<longrightarrow>
        filled_before p (execution_records st) < q \<and> pass_sent env p (execution_records st)
      \<and> pass_complete env q p (execution_records st)"
    by blast
  have ro: "route_order env max_retries algo_child = Inr (execution_records st, sor_total_filled st)"
    by (simp add: route_order_def r(1))
  have inv: "sor_inv q st" and tot: "sor_total_filled st = records_filled (execution_records st)"
    and rep: "records_replay env q (execution_records st)"
    and cnt: "\<forall>rec \<in> set (execution_records st). er_retry_count rec \<le> passes - 1"
    using r(2) by (simp_all add: sor_trace_def)
  have first: "0 < q \<longrightarrow> 1 \<le> passes"
    using r(6) assms(2) by (auto simp: sor_initial_def q_def)
  have recs: "0 \<le> er_retry_count rec \<and> er_retry_count rec < passes
              \<and> er_instruction rec = (if er_retry_count rec = 0 then EOE else IOC)"
    if "rec \<in> set (execution_records st)" for rec
  proof -
    from records_replay_member [OF rep that] obtain r' where "record_sent env r' rec" ..
    then have "0 \<le> er_retry_count rec"
      "er_instruction rec = (if er_retry_count rec = 0 then EOE else IOC)"
      by (simp_all add: record_sent_def Let_def)
    moreover have "er_retry_count rec < passes" using cnt that by fastforce
    ultimately show ?thesis by simp
  qed
  show ?thesis
    using r(1) ro r(3,4) first r(7) recs rep tot inv r(5)
    by (intro exI [of _ passes] exI [of _ st]) (auto simp: sor_inv_def q_def)
qed

theorem route_order_bounded_witness:
  "\<exists>passes st.
     route_passes example_env 2 0 (sor_initial (new_order 2 15000 ''PENDING'')) = Inr (passes, st)
   \<and> route_order example_env 2 (new_order 2 15000 ''PENDING'')
       = Inr (execution_records st, sor_total_filled st)
   \<and> 0 \<le> passes \<and> passes \<le> 1 + 2
   \<and> 1 \<le> passes
   \<and> (\<forall>p. 0 \<le> p \<and> p < passes \<longrightarrow>
         filled_before p (execution_records st) < 15000
       \<and> pass_sent example_env p (execution_records st)
       \<and> pass_complete example_env 15000 p (execution_records st))
   \<and> (\<forall>rec \<in> set (execution_records st).
         0 \<le> er_retry_count rec \<and> er_retry_count rec < passes
       \<and> er_instruction rec = (if er_retry_count rec = 0 then EOE else IOC))
   \<and> records_replay example_env 15000 (execution_records st)
   \<and> sor_total_filled st = records_filled (execution_records st)
   \<and> 0 \<le> sor_total_filled st \<and> sor_total_filled st \<le> 15000
   \<and> remaining_qty st = 15000 - sor_total_filled st
   \<and> (0 < remaining_qty st \<longrightarrow> passes = 1 + 2 \<and> sor_total_filled st < 15000)"
  using route_order_bounded [of "new_order 2 15000 ''PENDING''" 2 example_env]
  by (simp add: new_order_def example_env_def)

text \<open>
  The run of the witness: the first pass asks the three venues with the most
  liquidity with \<open>EOE\<close> and fills 6000 of 8000, 5000 and 3000; the retry asks the
  first venue with \<open>IOC\<close> for the 1000 that remain. And a run in which every venue
  fades: three passes of three orders each, nothing filled, the whole quantity left.
\<close>

lemma route_order_example:
  "route_order example_env 2 (new_order 2 15000 ''PENDING'')
     = Inr ([\<lparr>er_venue = ''DARK'', er_instruction = EOE, er_requested_qty = 8000,
               er_filled_qty = 6000, er_response = PARTIAL_R, er_retry_count = 0\<rparr>,
             \<lparr>er_venue = ''NYSE'', er_instruction = EOE, er_requested_qty = 5000,
               er_filled_qty = 5000, er_response = FILLED_R, er_retry_count = 0\<rparr>,
             \<lparr>er_venue = ''NASDAQ'', er_instruction = EOE, er_requested_qty = 3000,
               er_filled_qty = 3000, er_response = FILLED_R, er_retry_count = 0\<rparr>,
             \<lparr>er_venue = ''DARK'', er_instruction = IOC, er_requested_qty = 1000,
               er_filled_qty = 1000, er_response = FILLED_R, er_retry_count = 1\<rparr>],
            15000)"
  by code_simp

lemma route_order_exhausted_example:
  "(case route_passes fading_env 2 0 (sor_initial (new_order 2 15000 ''PENDING'')) of
      Inl err \<Rightarrow> False
    | Inr (passes, st) \<Rightarrow>
        passes = 3 \<and> sor_total_filled st = 0 \<and> remaining_qty st = 15000
      \<and> map er_retry_count (execution_records st) = [0, 0, 0, 1, 1, 1, 2, 2, 2]
      \<and> map er_instruction (execution_records st) = [EOE, EOE, EOE, IOC, IOC, IOC, IOC, IOC, IOC]
      \<and> map er_requested_qty (execution_records st)
          = [8000, 5000, 3000, 8000, 5000, 3000, 8000, 5000, 3000]
      \<and> (\<forall>rec \<in> set (execution_records st). er_response rec = FADE_R \<and> er_filled_qty rec = 0))"
  by code_simp


section \<open>The parent's average price and the fill log\<close>

lemma py_round4_zero: "py_round4 0 = 0"
  by (simp add: py_round4_def round4_def round_half_even_def py_float_zero)

lemma fills_quantity_append: "fills_quantity (xs @ ys) = fills_quantity xs + fills_quantity ys"
  by (simp add: fills_quantity_def)

lemma route_order_v2_fills:
  assumes "route_order_v2 child vs price = Inr (sor_orders, fills, child')"
  shows "fills \<noteq> []"
proof -
  have "length fills = length vs" "vs \<noteq> []"
    using assms by (auto simp: route_order_v2_def Let_def split: if_splits)
  then show ?thesis by auto
qed

lemma route_order_v2_returns:
  assumes "vs \<noteq> []"
  shows "\<exists>sor_orders fills child'. route_order_v2 child vs price = Inr (sor_orders, fills, child')"
  using assms by (simp add: route_order_v2_def Let_def)

lemma process_fills_inv:
  assumes "v2_inv pd" and "fills \<noteq> []"
  shows "\<exists>child' pd' db'. process_fills child fills (Some pd) db = (child', Some pd', db')
           \<and> v2_inv pd' \<and> pd_fills pd' = pd_fills pd @ fills"
  using assms
  by (simp add: process_fills_def Let_def v2_inv_def fills_quantity_append float_mean_def
        py_round4_zero)

lemma generate_child_slice_inv:
  assumes "v2_inv pd" and "vs \<noteq> []"
  shows "\<exists>pd'. generate_child_slice pd q vs price = Inr pd' \<and> v2_inv pd'"
proof -
  define child where "child = (new_order 2 q ''PENDING'')\<lparr>state := ''ACCEPTED''\<rparr>"
  from route_order_v2_returns [OF assms(2), of child price]
  obtain sor_orders fills child' where r: "route_order_v2 child vs price = Inr (sor_orders, fills, child')"
    by blast
  then have ne: "fills \<noteq> []" by (rule route_order_v2_fills)
  from process_fills_inv [OF assms(1) ne, of child' "[]"]
  obtain c2 pd' db' where p: "process_fills child' fills (Some pd) [] = (c2, Some pd', db')" "v2_inv pd'"
    by blast
  show ?thesis using r p by (simp add: generate_child_slice_def child_def Let_def)
qed

lemma v2_run_inv:
  assumes "v2_inv pd" and "\<forall>sl \<in> set slices. fst (snd sl) \<noteq> []"
  shows "\<exists>pd'. v2_run pd slices = Inr pd' \<and> v2_inv pd'"
  using assms
proof (induction slices arbitrary: pd)
  case Nil
  then show ?case by simp
next
  case (Cons sl rest)
  obtain q vs price where sl: "sl = (q, vs, price)" by (cases sl) auto
  with Cons.prems have "vs \<noteq> []" by simp
  from generate_child_slice_inv [OF Cons.prems(1) this, of q price]
  obtain pd1 where pd1: "generate_child_slice pd q vs price = Inr pd1" "v2_inv pd1" by blast
  from Cons.IH [OF pd1(2)] Cons.prems(2) obtain pd' where "v2_run pd1 rest = Inr pd'" "v2_inv pd'"
    by auto
  then show ?case using pd1(1) sl by simp
qed

lemma v2_initial_inv: "v2_inv (receive_client_order client)"
  by (simp add: v2_inv_def receive_client_order_def new_order_def fills_quantity_def
        float_mean_def py_round4_zero)

lemma tick_venue_loop_inv:
  assumes "0 \<le> slice_filled"
  shows "case tick_venue_loop slice_qty n vds (fills, snaps, slice_filled, slice_value) of
           (fills', snaps', slice_filled', slice_value') \<Rightarrow>
              fills_quantity fills' = fills_quantity fills + (slice_filled' - slice_filled)
            \<and> slice_filled \<le> slice_filled'
            \<and> (slice_filled' = slice_filled \<longrightarrow> fills' = fills)"
  using assms
proof (induction vds arbitrary: fills snaps slice_filled slice_value)
  case Nil
  then show ?case by simp
next
  case (Cons vd rest)
  show ?case
  proof (cases "slice_filled \<ge> slice_qty")
    case True
    then show ?thesis by simp
  next
    case False
    define venue_qty where "venue_qty = min (slice_qty div n + fst vd) (slice_qty - slice_filled)"
    show ?thesis
    proof (cases "venue_qty \<le> 0")
      case True
      then have "tick_venue_step slice_qty n vd (fills, snaps, slice_filled, slice_value)
                 = (fills, snaps, slice_filled, slice_value)"
        by (simp add: tick_venue_step_def venue_qty_def Let_def)
      then show ?thesis using False Cons.IH [OF Cons.prems] by simp
    next
      case pos: False
      obtain snaps1 where step: "tick_venue_step slice_qty n vd (fills, snaps, slice_filled, slice_value)
                 = (fills @ [\<lparr>fquantity = venue_qty, fprice = snd vd\<rparr>], snaps1,
                    slice_filled + venue_qty,
                    float_add slice_value (float_mul_int venue_qty (snd vd)))"
        using pos by (simp add: tick_venue_step_def venue_qty_def Let_def)
      have nn: "0 \<le> slice_filled + venue_qty" using pos Cons.prems by simp
      from Cons.IH [OF nn, of "fills @ [\<lparr>fquantity = venue_qty, fprice = snd vd\<rparr>]" snaps1
                      "float_add slice_value (float_mul_int venue_qty (snd vd))"]
      show ?thesis using False step pos
        by (auto simp: fills_quantity_append fills_quantity_def split: prod.splits)
    qed
  qed
qed

lemma tick_slice_step_inv:
  assumes "tick_inv st"
  shows "tick_inv (tick_slice_step slice_qty vds st)"
proof -
  obtain fills' snaps' sf sv where loop:
    "tick_venue_loop slice_qty (int (length vds)) vds
       (tk_fills_data st, tk_snapshots st @ [\<lparr>snap_order = new_order 2 slice_qty ''PENDING'', event_type = ''NEW''\<rparr>], 0, 0)
     = (fills', snaps', sf, sv)"
    by (metis prod_cases4)
  have "case tick_venue_loop slice_qty (int (length vds)) vds
       (tk_fills_data st, tk_snapshots st @ [\<lparr>snap_order = new_order 2 slice_qty ''PENDING'', event_type = ''NEW''\<rparr>], 0, 0) of
           (fills', snaps', slice_filled', slice_value') \<Rightarrow>
              fills_quantity fills' = fills_quantity (tk_fills_data st) + (slice_filled' - 0)
            \<and> 0 \<le> slice_filled'
            \<and> (slice_filled' = 0 \<longrightarrow> fills' = tk_fills_data st)"
    by (rule tick_venue_loop_inv) simp
  then have facts: "fills_quantity fills' = fills_quantity (tk_fills_data st) + sf" "0 \<le> sf"
    "sf = 0 \<longrightarrow> fills' = tk_fills_data st"
    using loop by auto
  show ?thesis
    using assms facts loop
    by (auto simp: tick_slice_step_def Let_def tick_inv_def float_mean_def)
qed

lemma tick_slices_inv:
  assumes "tick_inv st"
  shows "tick_inv (tick_slices slices st)"
  using assms
proof (induction slices arbitrary: st)
  case Nil
  then show ?case by simp
next
  case (Cons sl rest)
  obtain sd vds where "sl = (sd, vds)" by (cases sl)
  then show ?case using Cons by (auto simp: Let_def intro: tick_slice_step_inv)
qed

lemma tick_initial_inv: "tick_inv (tick_initial qty)"
  by (simp add: tick_inv_def tick_initial_def new_order_def fills_quantity_def float_mean_def)

text \<open>
  How far the float mean is from the quantity-weighted mean. With \<open>u = 2^-53\<close>,
  every rounding multiplies a non-negative value by a factor between \<open>1 - u\<close> and
  \<open>1 + u\<close>; a product \<open>qty * price\<close> takes two roundings, the sum one per fill,
  the division two and the inversion of a rounded divisor at most one more.
\<close>

lemma py_float_ge:
  assumes "0 \<le> x"
  shows "x * (1 - 1 / 2 ^ 53) \<le> py_float x"
proof -
  have "x - py_float x \<le> x / 2 ^ 53" using py_float_error [OF assms] by linarith
  then show ?thesis by (simp add: algebra_simps)
qed

lemma float_mul_int_ge:
  assumes "0 \<le> q" and "0 \<le> p"
  shows "of_int q * p * (1 - 1 / 2 ^ 53)\<^sup>2 \<le> float_mul_int q p"
proof -
  have q: "(0::rat) \<le> of_int q" using assms(1) by simp
  have fq: "0 \<le> py_float (of_int q)" by (rule py_float_nonneg [OF q])
  have "(of_int q * (1 - 1 / 2 ^ 53)) * p * (1 - 1 / 2 ^ 53)
          \<le> py_float (of_int q) * p * (1 - 1 / 2 ^ 53)"
    using py_float_ge [OF q] assms(2) by (intro mult_right_mono) simp_all
  also have "\<dots> \<le> float_mul_int q p"
    unfolding float_mul_int_def using fq assms(2) by (intro py_float_ge mult_nonneg_nonneg)
  finally show ?thesis by (simp add: power2_eq_square algebra_simps)
qed

lemma foldl_float_add_bounds:
  assumes "0 \<le> a" and "\<forall>x \<in> set xs. 0 \<le> x"
  shows "(a + sum_list xs) * (1 - 1 / 2 ^ 53) ^ length xs \<le> foldl float_add a xs
       \<and> foldl float_add a xs \<le> (a + sum_list xs) * (1 + 1 / 2 ^ 53) ^ length xs"
  using assms
proof (induction xs arbitrary: a)
  case Nil
  then show ?case by simp
next
  case (Cons x xs)
  have x: "0 \<le> x" and xs: "\<forall>y \<in> set xs. 0 \<le> y" and s: "0 \<le> sum_list xs"
    using Cons.prems(2) by (auto intro: sum_list_nonneg)
  have ax: "0 \<le> a + x" using Cons.prems(1) x by simp
  have b: "0 \<le> float_add a x" unfolding float_add_def by (rule py_float_nonneg [OF ax])
  have lo: "(a + x) * (1 - 1 / 2 ^ 53) \<le> float_add a x"
    unfolding float_add_def by (rule py_float_ge [OF ax])
  have hi: "float_add a x \<le> (a + x) * (1 + 1 / 2 ^ 53)"
    unfolding float_add_def by (rule py_float_le [OF ax])
  have u1: "(0::rat) \<le> 1 - 1 / 2 ^ 53" "(1::rat) - 1 / 2 ^ 53 \<le> 1" by simp_all
  have u2: "(1::rat) \<le> 1 + 1 / 2 ^ 53" by simp
  note IH = Cons.IH [OF b xs]
  have "(a + sum_list (x # xs)) * (1 - 1 / 2 ^ 53) ^ length (x # xs)
          = ((a + x) * (1 - 1 / 2 ^ 53) + sum_list xs * (1 - 1 / 2 ^ 53))
              * (1 - 1 / 2 ^ 53) ^ length xs"
    by (simp add: algebra_simps)
  also have "\<dots> \<le> (float_add a x + sum_list xs) * (1 - 1 / 2 ^ 53) ^ length xs"
  proof (intro mult_right_mono add_mono lo)
    show "sum_list xs * (1 - 1 / 2 ^ 53) \<le> sum_list xs"
      using s u1 by (simp add: mult_left_le)
    show "(0::rat) \<le> (1 - 1 / 2 ^ 53) ^ length xs" using u1 by simp
  qed
  also have "\<dots> \<le> foldl float_add (float_add a x) xs" using IH by simp
  finally have lower: "(a + sum_list (x # xs)) * (1 - 1 / 2 ^ 53) ^ length (x # xs)
                        \<le> foldl float_add a (x # xs)"
    by simp
  have "foldl float_add (float_add a x) xs
          \<le> (float_add a x + sum_list xs) * (1 + 1 / 2 ^ 53) ^ length xs"
    using IH by simp
  also have "\<dots> \<le> ((a + x) * (1 + 1 / 2 ^ 53) + sum_list xs * (1 + 1 / 2 ^ 53))
                       * (1 + 1 / 2 ^ 53) ^ length xs"
  proof (intro mult_right_mono add_mono hi)
    show "sum_list xs \<le> sum_list xs * (1 + 1 / 2 ^ 53)"
      using s u2 by (simp add: mult_le_cancel_left1)
    show "(0::rat) \<le> (1 + 1 / 2 ^ 53) ^ length xs" by simp
  qed
  also have "\<dots> = (a + sum_list (x # xs)) * (1 + 1 / 2 ^ 53) ^ length (x # xs)"
    by (simp add: algebra_simps)
  finally have upper: "foldl float_add a (x # xs)
                        \<le> (a + sum_list (x # xs)) * (1 + 1 / 2 ^ 53) ^ length (x # xs)"
    by simp
  from lower upper show ?case by simp
qed

lemma fill_values_bounds:
  assumes "\<forall>f \<in> set fills. 0 \<le> fquantity f \<and> 0 \<le> fprice f"
  shows "fills_value fills * (1 - 1 / 2 ^ 53)\<^sup>2
           \<le> sum_list (map (\<lambda>f. float_mul_int (fquantity f) (fprice f)) fills)
       \<and> sum_list (map (\<lambda>f. float_mul_int (fquantity f) (fprice f)) fills)
           \<le> fills_value fills * (1 + 1 / 2 ^ 53)\<^sup>2"
  using assms
proof (induction fills)
  case Nil
  then show ?case by (simp add: fills_value_def)
next
  case (Cons f fills)
  have f: "0 \<le> fquantity f" "0 \<le> fprice f" using Cons.prems by simp_all
  have IH: "fills_value fills * (1 - 1 / 2 ^ 53)\<^sup>2
              \<le> sum_list (map (\<lambda>f. float_mul_int (fquantity f) (fprice f)) fills)"
           "sum_list (map (\<lambda>f. float_mul_int (fquantity f) (fprice f)) fills)
              \<le> fills_value fills * (1 + 1 / 2 ^ 53)\<^sup>2"
    using Cons by simp_all
  from float_mul_int_ge [OF f] float_mul_int_le [OF f] IH show ?case
    by (simp add: fills_value_def algebra_simps)
qed

lemma fills_float_value_bounds:
  assumes "\<forall>f \<in> set fills. 0 \<le> fquantity f \<and> 0 \<le> fprice f"
  shows "fills_value fills * (1 - 1 / 2 ^ 53) ^ (length fills + 2) \<le> fills_float_value fills
       \<and> fills_float_value fills \<le> fills_value fills * (1 + 1 / 2 ^ 53) ^ (length fills + 2)"
proof -
  define vs where "vs = map (\<lambda>f. float_mul_int (fquantity f) (fprice f)) fills"
  define lo :: rat where "lo = 1 - 1 / 2 ^ 53"
  define hi :: rat where "hi = 1 + 1 / 2 ^ 53"
  have pos: "0 \<le> lo" "0 \<le> hi" by (simp_all add: lo_def hi_def)
  have nn: "\<forall>x \<in> set vs. 0 \<le> x"
    using assms by (auto simp: vs_def intro: float_mul_int_nonneg)
  have len: "length vs = length fills" by (simp add: vs_def)
  from foldl_float_add_bounds [OF order_refl nn]
  have s: "sum_list vs * lo ^ length fills \<le> fills_float_value fills"
          "fills_float_value fills \<le> sum_list vs * hi ^ length fills"
    by (simp_all add: fills_float_value_def py_sum_def vs_def [symmetric] len lo_def hi_def)
  from fill_values_bounds [OF assms]
  have v: "fills_value fills * lo\<^sup>2 \<le> sum_list vs"
          "sum_list vs \<le> fills_value fills * hi\<^sup>2"
    by (simp_all add: vs_def lo_def hi_def)
  have "fills_value fills * lo ^ (length fills + 2)
          = fills_value fills * lo\<^sup>2 * lo ^ length fills"
    by (simp add: power_add power2_eq_square)
  also have "\<dots> \<le> sum_list vs * lo ^ length fills"
    using v(1) pos by (intro mult_right_mono) simp_all
  also note s(1)
  finally have lower: "fills_value fills * lo ^ (length fills + 2) \<le> fills_float_value fills" .
  note s(2)
  also have "sum_list vs * hi ^ length fills
          \<le> fills_value fills * hi\<^sup>2 * hi ^ length fills"
    using v(2) pos by (intro mult_right_mono) simp_all
  also have "\<dots> = fills_value fills * hi ^ (length fills + 2)"
    by (simp add: power_add power2_eq_square)
  finally have upper: "fills_float_value fills \<le> fills_value fills * hi ^ (length fills + 2)" .
  from lower upper show ?thesis unfolding lo_def hi_def by simp
qed

lemma float_div_int_bounds:
  assumes "0 \<le> x" and "0 < n"
  shows "x / of_int n * ((1 - 1 / 2 ^ 53) / (1 + 1 / 2 ^ 53)) \<le> float_div_int x n
       \<and> float_div_int x n \<le> x / of_int n * ((1 + 1 / 2 ^ 53) / (1 - 1 / 2 ^ 53))"
proof -
  have n: "(0::rat) < of_int n" using assms(2) by simp
  define d where "d = py_float (of_int n)"
  have dlo: "of_int n * (1 - 1 / 2 ^ 53) \<le> d" unfolding d_def
    by (rule py_float_ge) (use n in simp)
  have dhi: "d \<le> of_int n * (1 + 1 / 2 ^ 53)" unfolding d_def
    by (rule py_float_le) (use n in simp)
  have lopos: "0 < of_int n * ((1::rat) - 1 / 2 ^ 53)" using n by simp
  then have dpos: "0 < d" using dlo by linarith
  have q: "0 \<le> x / d" using assms(1) dpos by simp
  have "x / of_int n * ((1 - 1 / 2 ^ 53) / (1 + 1 / 2 ^ 53))
          = x / (of_int n * (1 + 1 / 2 ^ 53)) * (1 - 1 / 2 ^ 53)"
    by simp
  also have "\<dots> \<le> x / d * (1 - 1 / 2 ^ 53)"
    using assms(1) dhi dpos by (intro mult_right_mono divide_left_mono) simp_all
  also have "\<dots> \<le> float_div_int x n"
    unfolding float_div_int_def d_def [symmetric] by (rule py_float_ge [OF q])
  finally have lower: "x / of_int n * ((1 - 1 / 2 ^ 53) / (1 + 1 / 2 ^ 53)) \<le> float_div_int x n" .
  have "float_div_int x n \<le> x / d * (1 + 1 / 2 ^ 53)"
    unfolding float_div_int_def d_def [symmetric] by (rule py_float_le [OF q])
  also have "\<dots> \<le> x / (of_int n * (1 - 1 / 2 ^ 53)) * (1 + 1 / 2 ^ 53)"
    using assms(1) dlo lopos dpos by (intro mult_right_mono divide_left_mono) simp_all
  also have "\<dots> = x / of_int n * ((1 + 1 / 2 ^ 53) / (1 - 1 / 2 ^ 53))"
    by simp
  finally have upper: "float_div_int x n \<le> x / of_int n * ((1 + 1 / 2 ^ 53) / (1 - 1 / 2 ^ 53))" .
  from lower upper show ?thesis by simp
qed

lemma fills_value_nonneg:
  assumes "\<forall>f \<in> set fills. 0 \<le> fquantity f \<and> 0 \<le> fprice f"
  shows "0 \<le> fills_value fills"
  unfolding fills_value_def using assms by (intro sum_list_nonneg) auto

text \<open>
  For non-negative quantities and prices the float mean of \<open>n\<close> fills is the
  quantity-weighted mean up to \<open>n + 4\<close> roundings.
\<close>

lemma float_mean_close:
  assumes nn: "nonneg_fills fills"
  shows "mean_within_rounding fills (float_mean fills)"
proof (cases "0 < fills_quantity fills")
  case False
  then show ?thesis by (simp add: mean_within_rounding_def vwap_def float_mean_def)
next
  case True
  have assms: "\<forall>f \<in> set fills. 0 \<le> fquantity f \<and> 0 \<le> fprice f"
    using nn by (simp add: nonneg_fills_def)
  define lo :: rat where "lo = 1 - 1 / 2 ^ 53"
  define hi :: rat where "hi = 1 + 1 / 2 ^ 53"
  define n where "n = length fills"
  define N :: rat where "N = of_int (fills_quantity fills)"
  define V where "V = fills_value fills"
  define S where "S = fills_float_value fills"
  have pos: "0 < lo" "0 < hi" by (simp_all add: lo_def hi_def)
  have N: "0 < N" using True by (simp add: N_def)
  have V: "0 \<le> V" unfolding V_def by (rule fills_value_nonneg [OF assms])
  have s: "V * lo ^ (n + 2) \<le> S" "S \<le> V * hi ^ (n + 2)"
    using fills_float_value_bounds [OF assms] by (simp_all add: V_def S_def lo_def hi_def n_def)
  have S: "0 \<le> S"
  proof -
    have "0 \<le> V * lo ^ (n + 2)" using V pos by simp
    then show ?thesis using s(1) by linarith
  qed
  have d: "S / N * (lo / hi) \<le> float_mean fills" "float_mean fills \<le> S / N * (hi / lo)"
    using float_div_int_bounds [OF S True] True
    by (simp_all add: float_mean_def S_def N_def lo_def hi_def)
  have suc: "n + 3 = Suc (n + 2)" by simp
  have "vwap fills * (lo ^ (n + 3) / hi) = V * lo ^ (n + 2) / N * (lo / hi)"
    using True unfolding suc by (simp add: vwap_def V_def N_def)
  also have "\<dots> \<le> S / N * (lo / hi)"
    using s(1) N pos by (intro mult_right_mono divide_right_mono) simp_all
  also note d(1)
  finally have lower: "vwap fills * (lo ^ (n + 3) / hi) \<le> float_mean fills" .
  note d(2)
  also have "S / N * (hi / lo) \<le> V * hi ^ (n + 2) / N * (hi / lo)"
    using s(2) N pos by (intro mult_right_mono divide_right_mono) simp_all
  also have "\<dots> = vwap fills * (hi ^ (n + 3) / lo)"
    using True unfolding suc by (simp add: vwap_def V_def N_def)
  finally have upper: "float_mean fills \<le> vwap fills * (hi ^ (n + 3) / lo)" .
  from lower upper show ?thesis
    unfolding mean_within_rounding_def lo_def hi_def n_def by simp
qed

text \<open>\<open>round(x, 4)\<close> moves a float by half a unit of the fourth decimal and one rounding.\<close>

lemma py_float_error_abs: "\<bar>py_float x - x\<bar> \<le> \<bar>x\<bar> / 2 ^ 53"
proof (cases "0 \<le> x")
  case True
  then show ?thesis using py_float_error [OF True] by simp
next
  case False
  then have "0 \<le> - x" by simp
  from py_float_error [OF this] show ?thesis using False by (simp add: py_float_minus)
qed

lemma round4_close: "\<bar>round4 x - x\<bar> \<le> 1 / 20000"
proof -
  have "\<bar>of_int (round_half_even (x * 10000)) - x * 10000\<bar> \<le> 1 / 2"
    using round_half_even_bounds [of "x * 10000"] by linarith
  then have "\<bar>of_int (round_half_even (x * 10000)) - x * 10000\<bar> / 10000 \<le> 1 / 2 / 10000"
    by (intro divide_right_mono) simp_all
  moreover have "\<bar>of_int (round_half_even (x * 10000)) - x * 10000\<bar> / 10000 = \<bar>round4 x - x\<bar>"
    by (simp add: round4_def abs_if field_simps)
  ultimately show ?thesis by simp
qed

lemma py_round4_close: "\<bar>py_round4 x - x\<bar> \<le> 1 / 20000 + (\<bar>x\<bar> + 1 / 20000) / 2 ^ 53"
proof -
  have r: "\<bar>round4 x\<bar> \<le> \<bar>x\<bar> + 1 / 20000" using round4_close [of x] by linarith
  have "\<bar>py_round4 x - x\<bar> \<le> \<bar>py_float (round4 x) - round4 x\<bar> + \<bar>round4 x - x\<bar>"
    unfolding py_round4_def by linarith
  also have "\<dots> \<le> \<bar>round4 x\<bar> / 2 ^ 53 + 1 / 20000"
    using py_float_error_abs [of "round4 x"] round4_close [of x] by linarith
  also have "\<dots> \<le> (\<bar>x\<bar> + 1 / 20000) / 2 ^ 53 + 1 / 20000"
    using r by (simp add: divide_right_mono)
  finally show ?thesis by simp
qed

text \<open>
  C2, as the code has it. Each time a generator has processed a slice, which is
  every time it writes and snapshots the algo parent, the parent's
  \<open>filled_quantity\<close> is the total quantity of the append-only fill log of the
  whole order, and its \<open>average_price\<close> is what the code's own float arithmetic
  makes of that log: the float sum of the float products \<open>qty * price\<close> divided by
  the filled quantity (0 when nothing is filled), in
  \<open>trading_system_simulator_v2.py\<close> rounded to four decimals by \<open>round(..., 4)\<close>.
  Recomputing the price from the log by the same operations gives the stored value
  back exactly. For a log of non-negative quantities and prices this float mean is
  the quantity-weighted mean up to the roundings of the computation, and the price
  the v2 simulator stores is within half a unit of the fourth decimal (and one more
  rounding) of it. Quantities and prices are taken within the range of floats.
  Between the logging of a fill and the end of its slice the tick database generator
  has not yet written the parent, so the statement is about the states between
  slices; every prefix of a run is a run.
\<close>

theorem parent_average_from_fill_log:
  assumes "\<forall>sl \<in> set v2_slices. fst (snd sl) \<noteq> []"
  shows "(let st = tick_slices slices (tick_initial qty)
          in filled_quantity (tk_algo_parent st) = fills_quantity (tk_fills_data st)
           \<and> average_price (tk_algo_parent st) = float_mean (tk_fills_data st)
           \<and> (nonneg_fills (tk_fills_data st) \<longrightarrow>
                 mean_within_rounding (tk_fills_data st) (average_price (tk_algo_parent st))))
       \<and> (\<exists>pd. v2_run (receive_client_order client) v2_slices = Inr pd
             \<and> filled_quantity (pd_order pd) = fills_quantity (pd_fills pd)
             \<and> average_price (pd_order pd) = py_round4 (float_mean (pd_fills pd))
             \<and> \<bar>average_price (pd_order pd) - float_mean (pd_fills pd)\<bar>
                 \<le> 1 / 20000 + (\<bar>float_mean (pd_fills pd)\<bar> + 1 / 20000) / 2 ^ 53
             \<and> (nonneg_fills (pd_fills pd) \<longrightarrow>
                   mean_within_rounding (pd_fills pd) (float_mean (pd_fills pd))))"
proof -
  have "tick_inv (tick_slices slices (tick_initial qty))"
    by (intro tick_slices_inv tick_initial_inv)
  moreover from v2_run_inv [OF v2_initial_inv assms]
  obtain pd where "v2_run (receive_client_order client) v2_slices = Inr pd" "v2_inv pd"
    by blast
  ultimately show ?thesis
    using py_round4_close [of "float_mean (pd_fills pd)"]
    by (auto simp: tick_inv_def v2_inv_def Let_def float_mean_close)
qed

theorem parent_average_from_fill_log_witness:
  "(let st = tick_slices [(500, [(0, 650), (10, 651)])] (tick_initial 1000)
    in filled_quantity (tk_algo_parent st) = fills_quantity (tk_fills_data st)
     \<and> average_price (tk_algo_parent st) = float_mean (tk_fills_data st)
     \<and> (nonneg_fills (tk_fills_data st) \<longrightarrow>
           mean_within_rounding (tk_fills_data st) (average_price (tk_algo_parent st))))
 \<and> (\<exists>pd. v2_run (receive_client_order (new_order 0 30000 ''PENDING''))
             [(10000, [''NYSE'', ''ARCA'', ''DARK''], example_prices)] = Inr pd
       \<and> filled_quantity (pd_order pd) = fills_quantity (pd_fills pd)
       \<and> average_price (pd_order pd) = py_round4 (float_mean (pd_fills pd))
       \<and> \<bar>average_price (pd_order pd) - float_mean (pd_fills pd)\<bar>
           \<le> 1 / 20000 + (\<bar>float_mean (pd_fills pd)\<bar> + 1 / 20000) / 2 ^ 53
       \<and> (nonneg_fills (pd_fills pd) \<longrightarrow>
             mean_within_rounding (pd_fills pd) (float_mean (pd_fills pd))))"
  using parent_average_from_fill_log
    [of "[(10000, [''NYSE'', ''ARCA'', ''DARK''], example_prices)]"
        "[(500, [(0, 650), (10, 651)])]" 1000 "new_order 0 30000 ''PENDING''"]
  by simp

text \<open>
  C2 as stated fails in \<open>trading_system_simulator_v2.py\<close>: one slice of 10000
  shares split over three venues (3333, 3333, 3334) and filled at the floats 650.0,
  650.0 and 650.01 leaves the parent with the stored price 650.0033 (the double
  nearest to it), while the quantity-weighted mean of the fill log is 650.003334.
\<close>

theorem parent_average_rounded_counterexample:
  "v2_run (receive_client_order (new_order 0 30000 ''PENDING''))
          [(10000, [''NYSE'', ''ARCA'', ''DARK''], example_prices)]
     = Inr \<lparr>pd_order =
              \<lparr>order_level = 1, quantity = 30000, filled_quantity = 10000,
               remaining_quantity = 20000,
               average_price = 5717489491542173 / 8796093022208, state = ''WORKING''\<rparr>,
            pd_client_order =
              \<lparr>order_level = 0, quantity = 30000, filled_quantity = 10000,
               remaining_quantity = 20000,
               average_price = 5717489491542173 / 8796093022208, state = ''WORKING''\<rparr>,
            pd_fills =
              [\<lparr>fquantity = 3333, fprice = 650\<rparr>, \<lparr>fquantity = 3333, fprice = 650\<rparr>,
               \<lparr>fquantity = 3334, fprice = 2858774212682711 / 4398046511104\<rparr>],
            pd_filled_children = 1\<rparr>
 \<and> vwap [\<lparr>fquantity = 3333, fprice = 650\<rparr>, \<lparr>fquantity = 3333, fprice = 650\<rparr>,
          \<lparr>fquantity = 3334, fprice = 2858774212682711 / 4398046511104\<rparr>]
     = 14293724476523340037 / 21990232555520000
 \<and> (5717489491542173 / 8796093022208 :: rat) \<noteq> 14293724476523340037 / 21990232555520000"
  by code_simp

text \<open>
  Nor is the stored price the exact mean rounded to four decimals: with 650.0,
  650.0 and 650.0001499700061 the exact mean is just above 650.00005 and rounds to
  650.0001, while the float quotient of the float sum is 650.00005 to the last bit
  and \<open>round\<close> stores 650.0.
\<close>

lemma parent_average_float_quotient:
  "v2_run (receive_client_order (new_order 0 30000 ''PENDING''))
          [(10000, [''NYSE'', ''ARCA'', ''DARK''], near_tie_prices)]
     = Inr \<lparr>pd_order =
              \<lparr>order_level = 1, quantity = 30000, filled_quantity = 10000,
               remaining_quantity = 20000, average_price = 650, state = ''WORKING''\<rparr>,
            pd_client_order =
              \<lparr>order_level = 0, quantity = 30000, filled_quantity = 10000,
               remaining_quantity = 20000, average_price = 650, state = ''WORKING''\<rparr>,
            pd_fills =
              [\<lparr>fquantity = 3333, fprice = 650\<rparr>, \<lparr>fquantity = 3333, fprice = 650\<rparr>,
               \<lparr>fquantity = 3334, fprice = 1429365445896331 / 2199023255552\<rparr>],
            pd_filled_children = 1\<rparr>
 \<and> round4 (vwap [\<lparr>fquantity = 3333, fprice = 650\<rparr>, \<lparr>fquantity = 3333, fprice = 650\<rparr>,
                  \<lparr>fquantity = 3334, fprice = 1429365445896331 / 2199023255552\<rparr>])
     = 6500001 / 10000"
  by code_simp


section \<open>The client view of the snapshot log\<close>

lemma client_view_append: "client_view (xs @ ys) = client_view xs @ client_view ys"
  by (simp add: client_view_def)

lemma client_view_Nil: "client_view [] = []"
  by (simp add: client_view_def)

lemma client_view_single:
  "client_view [\<lparr>snap_order = ord, event_type = ev\<rparr>] = (if order_level ord = 0 then [ord] else [])"
  by (simp add: client_view_def)

lemma client_view_add_snapshot:
  "client_view (snapshots (add_snapshot self ord ev))
     = client_view (snapshots self) @ (if order_level ord = 0 then [ord] else [])"
  by (simp add: add_snapshot_def client_view_append client_view_single)

lemma add_snapshot_fields:
  "order_size (add_snapshot self ord ev) = order_size self"
  "detail_level (add_snapshot self ord ev) = detail_level self"
  "total_filled (add_snapshot self ord ev) = total_filled self"
  "total_value (add_snapshot self ord ev) = total_value self"
  "client_order (add_snapshot self ord ev) = client_order self"
  "algo_parent (add_snapshot self ord ev) = algo_parent self"
  by (simp_all add: add_snapshot_def)

lemma gen_inv_add_other:
  assumes "gen_inv n self" and "order_level ord \<noteq> 0"
  shows "gen_inv n (add_snapshot self ord ev)"
  using assms by (simp add: gen_inv_def add_snapshot_fields client_view_add_snapshot)

lemma propagate_gen_inv:
  assumes "gen_inv n self" and "0 < delta" and "total_filled self + delta \<le> n"
      and "order_level slice_order = 2"
  shows "gen_inv n (fst (propagate_fill_up_chain self delta v slice_order u))"
    and "total_filled (fst (propagate_fill_up_chain self delta v slice_order u)) = total_filled self + delta"
    and "order_level (snd (propagate_fill_up_chain self delta v slice_order u)) = 2"
    and "detail_level (fst (propagate_fill_up_chain self delta v slice_order u)) = detail_level self"
  using assms
  by (auto simp: propagate_fill_up_chain_def Let_def gen_inv_def add_snapshot_fields
        client_view_add_snapshot sorted_append)

lemma venue_outcome_bounds:
  assumes "0 < q"
  shows "0 \<le> fst (snd (venue_outcome r r2 q p))" and "fst (snd (venue_outcome r r2 q p)) \<le> q"
  using assms by (auto simp: venue_outcome_def)

lemma record_route_inv:
  assumes "gen_inv n self"
  shows "gen_inv n (record_route self route_size outcome)"
    and "total_filled (record_route self route_size outcome) = total_filled self"
proof -
  have "order_level (sor_order_of route_size outcome) \<noteq> 0"
    by (simp add: sor_order_of_def split: prod.splits)
  then show "gen_inv n (record_route self route_size outcome)"
    using assms by (simp add: record_route_def gen_inv_add_other)
  show "total_filled (record_route self route_size outcome) = total_filled self"
    by (simp add: record_route_def add_snapshot_fields)
qed

lemma apply_fill_inv:
  assumes "route_inv n slice_size st" and "filled_qty \<le> slice_size - fst (snd (snd st))"
  shows "route_inv n slice_size (apply_fill urgency filled_qty fill_price st)"
proof -
  obtain self slo sf sv where st: "st = (self, slo, sf, sv)" by (cases st) auto
  from assms have inv: "gen_inv n self" "order_level slo = 2"
      "total_filled self + (slice_size - sf) \<le> n" "filled_qty \<le> slice_size - sf"
    by (simp_all add: route_inv_def st)
  show ?thesis
  proof (cases "filled_qty > 0")
    case False
    then show ?thesis using assms by (simp add: apply_fill_def st)
  next
    case fill: True
    show ?thesis
    proof (cases "detail_level self \<noteq> ''none''")
      case True
      have le: "total_filled self + filled_qty \<le> n" using inv by linarith
      from propagate_gen_inv [OF inv(1) fill le inv(2)] inv(3)
      show ?thesis using fill True by (simp add: apply_fill_def st route_inv_def split_def Let_def)
    next
      case False
      then show ?thesis using fill inv by (simp add: apply_fill_def st route_inv_def Let_def)
    qed
  qed
qed

lemma route_step_inv:
  assumes "route_inv n slice_size st"
  shows "route_inv n slice_size (route_step d hour sl urgency slice_size num_routes route_num st)"
proof -
  obtain self slo sf sv where st: "st = (self, slo, sf, sv)" by (cases st) auto
  from assms have inv: "gen_inv n self" "order_level slo = 2" "total_filled self + (slice_size - sf) \<le> n"
    by (simp_all add: route_inv_def st)
  define route_size where
    "route_size = min ((slice_size - sf) div (num_routes - int route_num)) (slice_size - sf)"
  show ?thesis
  proof (cases "route_size \<le> 0")
    case True
    then show ?thesis using assms
      by (simp add: route_step_def st route_size_def [symmetric] Let_def)
  next
    case False
    define outcome where "outcome = venue_outcome (outcome_rand d hour sl route_num)
        (reject_rand d hour sl route_num) route_size (price_draw d hour sl route_num)"
    have b: "fst (snd outcome) \<le> route_size"
      using False venue_outcome_bounds [of route_size] by (simp add: outcome_def)
    have rs: "route_size \<le> slice_size - sf" by (simp add: route_size_def)
    have 1: "route_inv n slice_size (record_route self route_size outcome, slo, sf, sv)"
      using inv record_route_inv [OF inv(1)] by (simp add: route_inv_def)
    have "route_inv n slice_size
            (apply_fill urgency (fst (snd outcome)) (snd (snd outcome))
               (record_route self route_size outcome, slo, sf, sv))"
      using b rs by (intro apply_fill_inv [OF 1]) simp
    then show ?thesis using False
      by (simp add: route_step_def st route_size_def [symmetric] Let_def outcome_def [symmetric])
  qed
qed

lemma route_loop_inv:
  assumes "route_inv n slice_size st"
  shows "route_inv n slice_size (route_loop d hour sl urgency slice_size num_routes routes st)"
  using assms
proof (induction routes arbitrary: st)
  case Nil
  then show ?case by simp
next
  case (Cons route_num rest)
  show ?case
    using Cons.IH [OF route_step_inv [OF Cons.prems]] Cons.prems by simp
qed

lemma slice_step_inv:
  assumes "gen_inv n self"
  shows "gen_inv n (slice_step d hour urgency sl self)"
proof -
  define slice_size where "slice_size = min (slice_draw d hour sl) (order_size self - total_filled self)"
  define self1 where "self1 = (if detail_level self = ''full'' \<or> detail_level self = ''summary''
        then add_snapshot self (new_order 2 slice_size ''PENDING'') ''NEW'' else self)"
  have inv1: "gen_inv n self1" "total_filled self1 = total_filled self"
    using assms by (auto simp: self1_def add_snapshot_fields new_order_def intro: gen_inv_add_other)
  have "slice_size \<le> n - total_filled self" using assms by (simp add: slice_size_def gen_inv_def)
  then have "route_inv n slice_size (self1, new_order 2 slice_size ''PENDING'', 0, 0)"
    using inv1 by (simp add: route_inv_def new_order_def)
  from route_loop_inv [OF this]
  have "gen_inv n (fst (route_loop d hour sl urgency slice_size nr routes
                     (self1, new_order 2 slice_size ''PENDING'', 0, 0)))" for nr routes
    by (simp add: route_inv_def split_def)
  then show ?thesis
    by (simp add: slice_step_def Let_def slice_size_def [symmetric] self1_def [symmetric])
qed

lemma slice_loop_inv:
  assumes "gen_inv n self"
  shows "gen_inv n (slice_loop d hour urgency sls self)"
  using assms by (induction sls arbitrary: self) (auto intro: slice_step_inv)

lemma hour_step_inv:
  assumes "gen_inv n self"
  shows "gen_inv n (hour_step d slices_per_hour hour self)"
  using assms by (simp add: hour_step_def Let_def slice_loop_inv)

lemma hour_loop_inv:
  assumes "gen_inv n self"
  shows "gen_inv n (hour_loop d slices_per_hour hours self)"
  using assms by (induction hours arbitrary: self) (auto intro: hour_step_inv)

lemma start_orders_inv:
  assumes "0 \<le> order_sz"
  shows "gen_inv order_sz (start_orders order_sz avg_slice_sz detail)"
  using assms
  by (simp add: start_orders_def Let_def initial_state_def new_order_def gen_inv_def
        add_snapshot_def client_view_def)

lemma complete_orders_view:
  assumes "gen_inv n self"
  shows "order_size (complete_orders self) = n"
    and "total_filled (complete_orders self) = total_filled self"
    and "sorted (map filled_quantity (client_view (snapshots (complete_orders self))))"
    and "n \<le> total_filled self \<Longrightarrow>
           filled_quantity (last (client_view (snapshots (complete_orders self)))) = n
         \<and> state (last (client_view (snapshots (complete_orders self)))) = ''FILLED''"
  using assms
  by (auto simp: complete_orders_def Let_def gen_inv_def add_snapshot_fields
        client_view_add_snapshot sorted_append)

lemma generate_client_view:
  assumes "0 < order_sz" and "avg_slice_sz \<noteq> 0"
  shows "\<exists>st. generate d order_sz avg_slice_sz detail = Inr st
           \<and> sorted (map filled_quantity (client_view (snapshots st)))
           \<and> (order_sz \<le> total_filled st \<longrightarrow>
                 filled_quantity (last (client_view (snapshots st))) = order_sz
               \<and> state (last (client_view (snapshots st))) = ''FILLED'')"
proof -
  define s3 where "s3 = start_orders order_sz avg_slice_sz detail"
  define s4 where "s4 = hour_loop d ((order_size s3 div avg_slice_size s3) div 7) [0..<nat 7] s3"
  have inv3: "gen_inv order_sz s3"
    unfolding s3_def using assms(1) by (intro start_orders_inv) simp
  have inv4: "gen_inv order_sz s4"
    unfolding s4_def by (rule hour_loop_inv [OF inv3])
  note cv = complete_orders_view [OF inv4]
  have run: "generate d order_sz avg_slice_sz detail = Inr (complete_orders s4)"
    using assms cv(1)
    unfolding generate_def Let_def s3_def [symmetric] s4_def [symmetric] by simp
  show ?thesis
    using run cv by simp
qed

lemma fv_venue_outcome_bounds:
  assumes "0 \<le> q"
  shows "0 \<le> fst (snd (fv_venue_outcome fr pr r r2 q p))"
    and "fst (snd (fv_venue_outcome fr pr r r2 q p)) \<le> q"
  using assms by (auto simp: fv_venue_outcome_def Let_def)

lemma fv_route_step_bounds:
  assumes "0 \<le> slice_size div num_routes"
  shows "case fv_route_step d detail fr pr hour sl slice_size num_routes route_num (snaps, sf, sv) of
           (snaps', sf', sv') \<Rightarrow>
              client_view snaps' = client_view snaps
            \<and> sf \<le> sf' \<and> sf' \<le> sf + slice_size div num_routes"
  using fv_venue_outcome_bounds [OF assms]
  by (simp add: fv_route_step_def Let_def client_view_append client_view_single fv_sor_order_def
        split_def)

lemma fv_route_loop_bounds:
  assumes "0 \<le> slice_size div num_routes"
  shows "case fv_route_loop d detail fr pr hour sl slice_size num_routes routes (snaps, sf, sv) of
           (snaps', sf', sv') \<Rightarrow>
              client_view snaps' = client_view snaps
            \<and> sf \<le> sf' \<and> sf' \<le> sf + int (length routes) * (slice_size div num_routes)"
proof (induction routes arbitrary: snaps sf sv)
  case Nil
  then show ?case by simp
next
  case (Cons route_num rest)
  show ?case
  proof (cases "sf \<ge> slice_size")
    case True
    then show ?thesis using assms by simp
  next
    case False
    obtain snaps1 sf1 sv1 where step:
      "fv_route_step d detail fr pr hour sl slice_size num_routes route_num (snaps, sf, sv)
         = (snaps1, sf1, sv1)"
      by (metis prod_cases3)
    have "case fv_route_step d detail fr pr hour sl slice_size num_routes route_num (snaps, sf, sv) of
           (snaps', sf', sv') \<Rightarrow>
              client_view snaps' = client_view snaps
            \<and> sf \<le> sf' \<and> sf' \<le> sf + slice_size div num_routes"
      by (rule fv_route_step_bounds [OF assms])
    then have b1: "client_view snaps1 = client_view snaps" "sf \<le> sf1" "sf1 \<le> sf + slice_size div num_routes"
      by (simp_all add: step)
    from Cons.IH [of snaps1 sf1 sv1] b1 False step
    show ?thesis by (auto simp: algebra_simps split: prod.splits)
  qed
qed

lemma fv_route_loop_slice:
  assumes "num_routes = 2 \<or> num_routes = 3"
  shows "case fv_route_loop d detail fr pr hour sl slice_size (int num_routes) [0..<num_routes] (snaps, 0, 0) of
           (snaps', sf', sv') \<Rightarrow>
              client_view snaps' = client_view snaps \<and> 0 \<le> sf' \<and> sf' \<le> max 0 slice_size"
proof (cases "slice_size \<le> 0")
  case True
  have "[0..<num_routes] \<noteq> []" using assms by auto
  then obtain r rs where "[0..<num_routes] = r # rs" by (cases "[0..<num_routes]") auto
  then show ?thesis using True by simp
next
  case False
  have nn: "0 \<le> slice_size div int num_routes"
    using False assms by (auto simp: pos_imp_zdiv_nonneg_iff)
  have pos: "0 < int num_routes" using assms by auto
  have le: "int num_routes * (slice_size div int num_routes) \<le> slice_size"
    using mult_div_mod_eq [of "int num_routes" slice_size] pos_mod_sign [OF pos, of slice_size]
    by linarith
  have "case fv_route_loop d detail fr pr hour sl slice_size (int num_routes) [0..<num_routes] (snaps, 0, 0) of
           (snaps', sf', sv') \<Rightarrow>
              client_view snaps' = client_view snaps
            \<and> 0 \<le> sf' \<and> sf' \<le> 0 + int (length [0..<num_routes]) * (slice_size div int num_routes)"
    by (rule fv_route_loop_bounds [OF nn])
  with le False show ?thesis by (auto split: prod.splits)
qed

lemma fv_slice_step_inv:
  assumes "fv_inv n st" and "fv_total_filled st < n"
  shows "fv_inv n (fv_slice_step d n detail fr pr hour urgency sl st)"
    and "fv_client (fv_slice_step d n detail fr pr hour urgency sl st) = fv_client st"
proof -
  define slice_size where "slice_size = min (slice_draw d hour sl) (n - fv_total_filled st)"
  define num_routes :: nat where "num_routes = (if urgency = CRITICAL \<or> urgency = URGENT then 3 else 2)"
  define snaps0 where "snaps0 = (if detail = ''full''
                   then fv_snapshots st @ [\<lparr>snap_order = new_order 2 slice_size ''PENDING'', event_type = ''NEW''\<rparr>]
                   else fv_snapshots st)"
  obtain snaps1 sf sv where loop:
    "fv_route_loop d detail fr pr hour sl slice_size (int num_routes) [0..<num_routes] (snaps0, 0, 0)
       = (snaps1, sf, sv)"
    by (metis prod_cases3)
  have nr: "num_routes = 2 \<or> num_routes = 3" by (simp add: num_routes_def)
  have "case fv_route_loop d detail fr pr hour sl slice_size (int num_routes) [0..<num_routes] (snaps0, 0, 0) of
           (snaps', sf', sv') \<Rightarrow>
              client_view snaps' = client_view snaps0 \<and> 0 \<le> sf' \<and> sf' \<le> max 0 slice_size"
    by (rule fv_route_loop_slice [OF nr])
  then have b: "client_view snaps1 = client_view snaps0" "0 \<le> sf" "sf \<le> max 0 slice_size"
    by (simp_all add: loop)
  have cv0: "client_view snaps0 = client_view (fv_snapshots st)"
    by (simp add: snaps0_def client_view_append client_view_single new_order_def)
  have sl: "slice_size \<le> n - fv_total_filled st" by (simp add: slice_size_def)
  define snaps2 where "snaps2 = (if detail = ''summary'' \<and> sf > 0
                   then snaps1 @ [\<lparr>snap_order = (new_order 2 slice_size ''PENDING'')\<lparr>
                                     filled_quantity := sf,
                                     remaining_quantity := slice_size - sf,
                                     average_price := (if sf > 0 then sv / of_int sf else 0),
                                     state := (if sf \<ge> slice_size then ''FILLED'' else ''PARTIAL'')\<rparr>,
                                  event_type = ''SLICE_SUMMARY''\<rparr>]
                   else snaps1)"
  have cv2: "client_view snaps2 = client_view (fv_snapshots st)"
    by (simp add: snaps2_def client_view_append client_view_single new_order_def b(1) cv0)
  have step: "fv_slice_step d n detail fr pr hour urgency sl st
      = st\<lparr>fv_snapshots := snaps2,
            fv_total_filled := fv_total_filled st + sf,
            fv_total_value := fv_total_value st + sv,
            fv_slice_counter := fv_slice_counter st + 1\<rparr>"
    unfolding fv_slice_step_def Let_def slice_size_def [symmetric] num_routes_def [symmetric]
      snaps0_def [symmetric] loop
    by (simp add: snaps2_def)
  show "fv_client (fv_slice_step d n detail fr pr hour urgency sl st) = fv_client st"
    by (simp add: step)
  have "fv_total_filled st + sf \<le> n" using b sl assms(2) by linarith
  then show "fv_inv n (fv_slice_step d n detail fr pr hour urgency sl st)"
    using assms b(2) by (auto simp: step fv_inv_def cv2)
qed

lemma fv_slice_loop_inv:
  assumes "fv_inv n st"
  shows "fv_inv n (fv_slice_loop d n detail fr pr hour urgency sls st)
       \<and> fv_client (fv_slice_loop d n detail fr pr hour urgency sls st) = fv_client st"
  using assms
proof (induction sls arbitrary: st)
  case Nil
  then show ?case by simp
next
  case (Cons sl rest)
  show ?case
  proof (cases "fv_total_filled st \<ge> n")
    case True
    then show ?thesis using Cons.prems by simp
  next
    case False
    then have lt: "fv_total_filled st < n" by simp
    from fv_slice_step_inv [OF Cons.prems lt]
    have 1: "fv_inv n (fv_slice_step d n detail fr pr hour urgency sl st)"
      and 2: "fv_client (fv_slice_step d n detail fr pr hour urgency sl st) = fv_client st"
      by blast+
    from Cons.IH [OF 1] 2 False show ?thesis by simp
  qed
qed

lemma fv_hour_step_inv:
  assumes "fv_inv n st"
  shows "fv_inv n (fv_hour_step d n detail fr pr num_slices slices_per_hour hour st)
       \<and> fv_done n (fv_hour_step d n detail fr pr num_slices slices_per_hour hour st)"
proof -
  define urgency where "urgency = fv_urgency n (int hour) (fv_total_filled st)"
  define sls where "sls = [0..<nat (min (if int hour < 7 - 1 then slices_per_hour
                         else num_slices - fv_slice_counter st + 1) 50)]"
  define st1 where "st1 = fv_slice_loop d n detail fr pr hour urgency sls st"
  define client where "client = (fv_client st1)\<lparr>
                     filled_quantity := fv_total_filled st1,
                     remaining_quantity := n - fv_total_filled st1,
                     average_price := (if fv_total_filled st1 > 0
                                       then fv_total_value st1 / of_int (fv_total_filled st1) else 0),
                     state := (if fv_total_filled st1 < n then ''WORKING'' else ''FILLED'')\<rparr>"
  have inv1: "fv_inv n st1" unfolding st1_def using fv_slice_loop_inv [OF assms] by blast
  have step: "fv_hour_step d n detail fr pr num_slices slices_per_hour hour st
      = st1\<lparr>fv_client := client,
             fv_snapshots := fv_snapshots st1 @ [\<lparr>snap_order = client, event_type = ''CLIENT_UPDATE''\<rparr>]\<rparr>"
    unfolding fv_hour_step_def Let_def urgency_def [symmetric] sls_def [symmetric]
      st1_def [symmetric] client_def [symmetric] by simp
  have lvl: "order_level client = 0" using inv1 by (simp add: client_def fv_inv_def)
  have cv: "client_view (fv_snapshots st1 @ [\<lparr>snap_order = client, event_type = ''CLIENT_UPDATE''\<rparr>])
              = client_view (fv_snapshots st1) @ [client]"
    by (simp add: client_view_append client_view_single lvl)
  have fq: "filled_quantity client = fv_total_filled st1"
    and stt: "n \<le> fv_total_filled st1 \<Longrightarrow> state client = ''FILLED''"
    by (simp_all add: client_def)
  have le: "fv_total_filled st1 \<le> n" using inv1 by (simp add: fv_inv_def)
  have "fv_inv n (st1\<lparr>fv_client := client,
             fv_snapshots := fv_snapshots st1 @ [\<lparr>snap_order = client, event_type = ''CLIENT_UPDATE''\<rparr>]\<rparr>)"
    using inv1 lvl fq by (auto simp: fv_inv_def cv sorted_append)
  moreover have "fv_done n (st1\<lparr>fv_client := client,
             fv_snapshots := fv_snapshots st1 @ [\<lparr>snap_order = client, event_type = ''CLIENT_UPDATE''\<rparr>]\<rparr>)"
    using fq stt le by (auto simp: fv_done_def cv)
  ultimately show ?thesis by (simp add: step)
qed

lemma fv_hour_loop_inv:
  assumes "fv_inv n st" and "fv_done n st"
  shows "fv_inv n (fv_hour_loop d n detail fr pr num_slices slices_per_hour hours st)
       \<and> fv_done n (fv_hour_loop d n detail fr pr num_slices slices_per_hour hours st)"
  using assms
proof (induction hours arbitrary: st)
  case Nil
  then show ?case by simp
next
  case (Cons hour rest)
  show ?case
  proof (cases "fv_total_filled st \<ge> n")
    case True
    then show ?thesis using Cons.prems by simp
  next
    case False
    from fv_hour_step_inv [OF Cons.prems(1)]
    have 1: "fv_inv n (fv_hour_step d n detail fr pr num_slices slices_per_hour hour st)"
      and 2: "fv_done n (fv_hour_step d n detail fr pr num_slices slices_per_hour hour st)"
      by blast+
    from Cons.IH [OF 1 2] False show ?thesis by simp
  qed
qed

lemma generate_final_vwap_client_view:
  assumes "0 < order_sz" and "avg_slice_sz \<noteq> 0"
  shows "generate_final_vwap d order_sz avg_slice_sz detail fr pr
           = Inr (fv_snapshots (fv_final_state d order_sz avg_slice_sz detail fr pr))"
    and "sorted (map filled_quantity
           (client_view (fv_snapshots (fv_final_state d order_sz avg_slice_sz detail fr pr))))"
    and "order_sz \<le> fv_total_filled (fv_final_state d order_sz avg_slice_sz detail fr pr) \<Longrightarrow>
           filled_quantity (last (client_view
              (fv_snapshots (fv_final_state d order_sz avg_slice_sz detail fr pr)))) = order_sz
         \<and> state (last (client_view
              (fv_snapshots (fv_final_state d order_sz avg_slice_sz detail fr pr)))) = ''FILLED''"
proof -
  define st0 where "st0 =
     \<lparr>fv_snapshots = (if detail \<noteq> ''client_only''
          then [\<lparr>snap_order = new_order 0 order_sz ''PENDING'', event_type = ''NEW''\<rparr>]
               @ [\<lparr>snap_order = new_order 1 order_sz ''WORKING'', event_type = ''NEW''\<rparr>]
          else [\<lparr>snap_order = new_order 0 order_sz ''PENDING'', event_type = ''NEW''\<rparr>]),
      fv_total_filled = 0, fv_total_value = 0,
      fv_slice_counter = 1, fv_client = new_order 0 order_sz ''PENDING''\<rparr>"
  have inv0: "fv_inv order_sz st0" "fv_done order_sz st0"
    using assms(1) by (auto simp: fv_inv_def fv_done_def st0_def new_order_def client_view_def)
  have fin: "fv_final_state d order_sz avg_slice_sz detail fr pr
        = fv_hour_loop d order_sz detail fr pr (order_sz div avg_slice_sz)
            (order_sz div avg_slice_sz div 7) [0..<7] st0"
    by (simp add: fv_final_state_def Let_def st0_def)
  from fv_hour_loop_inv [OF inv0]
  have inv: "fv_inv order_sz (fv_final_state d order_sz avg_slice_sz detail fr pr)"
       "fv_done order_sz (fv_final_state d order_sz avg_slice_sz detail fr pr)"
    unfolding fin by blast+
  show "generate_final_vwap d order_sz avg_slice_sz detail fr pr
           = Inr (fv_snapshots (fv_final_state d order_sz avg_slice_sz detail fr pr))"
    using assms by (simp add: generate_final_vwap_def Let_def)
  show "sorted (map filled_quantity
           (client_view (fv_snapshots (fv_final_state d order_sz avg_slice_sz detail fr pr))))"
    using inv(1) by (simp add: fv_inv_def)
  show "order_sz \<le> fv_total_filled (fv_final_state d order_sz avg_slice_sz detail fr pr) \<Longrightarrow>
           filled_quantity (last (client_view
              (fv_snapshots (fv_final_state d order_sz avg_slice_sz detail fr pr)))) = order_sz
         \<and> state (last (client_view
              (fv_snapshots (fv_final_state d order_sz avg_slice_sz detail fr pr)))) = ''FILLED''"
    using inv(2) by (simp add: fv_done_def)
qed

text \<open>
  C9. In the ordered snapshot log the snapshots with \<open>order_level = 0\<close> have
  non-decreasing \<open>filled_quantity\<close>, and on full execution (the running total
  has reached the order size) the last client-level snapshot has \<open>filled_quantity\<close>
  equal to the order size and state \<open>FILLED\<close>. Proved for every run of
  \<open>generate\<close> and of \<open>generate_final_vwap\<close> on an order of positive size
  (with a non-zero average slice size, without which both raise), whatever the random
  draws.
\<close>

theorem client_view_monotone:
  assumes "0 < order_sz" and "avg_slice_sz \<noteq> 0"
  shows "(\<exists>st. generate d order_sz avg_slice_sz detail = Inr st
            \<and> sorted (map filled_quantity (client_view (snapshots st)))
            \<and> (order_sz \<le> total_filled st \<longrightarrow>
                  filled_quantity (last (client_view (snapshots st))) = order_sz
                \<and> state (last (client_view (snapshots st))) = ''FILLED''))
       \<and> generate_final_vwap d order_sz avg_slice_sz detail fade_rate partial_rate
           = Inr (fv_snapshots (fv_final_state d order_sz avg_slice_sz detail fade_rate partial_rate))
       \<and> sorted (map filled_quantity (client_view
             (fv_snapshots (fv_final_state d order_sz avg_slice_sz detail fade_rate partial_rate))))
       \<and> (order_sz \<le> fv_total_filled
                         (fv_final_state d order_sz avg_slice_sz detail fade_rate partial_rate) \<longrightarrow>
             filled_quantity (last (client_view
               (fv_snapshots (fv_final_state d order_sz avg_slice_sz detail fade_rate partial_rate))))
               = order_sz
           \<and> state (last (client_view
               (fv_snapshots (fv_final_state d order_sz avg_slice_sz detail fade_rate partial_rate))))
               = ''FILLED'')"
  using generate_client_view [OF assms] generate_final_vwap_client_view [OF assms]
  by blast

theorem client_view_monotone_witness:
  "(\<exists>st. generate full_fill_draws 700 100 ''summary'' = Inr st
      \<and> sorted (map filled_quantity (client_view (snapshots st)))
      \<and> 700 \<le> total_filled st
      \<and> filled_quantity (last (client_view (snapshots st))) = 700
      \<and> state (last (client_view (snapshots st))) = ''FILLED'')
 \<and> generate_final_vwap full_fill_draws 700 100 ''summary'' (5/100) (10/100)
     = Inr (fv_snapshots (fv_final_state full_fill_draws 700 100 ''summary'' (5/100) (10/100)))
 \<and> sorted (map filled_quantity (client_view
       (fv_snapshots (fv_final_state full_fill_draws 700 100 ''summary'' (5/100) (10/100)))))
 \<and> 700 \<le> fv_total_filled (fv_final_state full_fill_draws 700 100 ''summary'' (5/100) (10/100))
 \<and> filled_quantity (last (client_view
       (fv_snapshots (fv_final_state full_fill_draws 700 100 ''summary'' (5/100) (10/100))))) = 700
 \<and> state (last (client_view
       (fv_snapshots (fv_final_state full_fill_draws 700 100 ''summary'' (5/100) (10/100)))))
     = ''FILLED''"
proof -
  have full1: "case generate full_fill_draws 700 100 ''summary'' of
                 Inl e \<Rightarrow> False | Inr st \<Rightarrow> 700 \<le> total_filled st"
    by code_simp
  have full2: "700 \<le> fv_total_filled (fv_final_state full_fill_draws 700 100 ''summary'' (5/100) (10/100))"
    by code_simp
  show ?thesis
    using client_view_monotone [of 700 100 full_fill_draws "''summary''" "5/100" "10/100"]
      full1 full2
    by (auto split: sum.splits)
qed

end
